theory Spec2Isabelle
  imports Complex_Main "HOL-Library.Char_ord" "HOL-Library.List_Lexorder"
begin

section \<open>Python values used by the pipeline\<close>

text \<open>
  The pipeline of \<^verbatim>\<open>app.py\<close> is a Pathway dataflow whose user-defined functions are
  small Python functions on strings and floats. Exceptions are values of \<open>error\<close>; a
  computation that may raise returns \<open>error + 'a\<close> with \<open>Inl\<close> the exception.

  A Python float is modelled as \<open>pyfloat\<close>: a finite value, carried as an exact real
  number, or one of the special values \<^verbatim>\<open>inf\<close>, \<^verbatim>\<open>-inf\<close>, \<^verbatim>\<open>nan\<close>. Binary rounding of
  IEEE doubles, overflow to infinity and the sign of zero are outside this model.
  Strings are byte strings; only ASCII white space, digits and letters are recognised
  as such.
\<close>

datatype error = TypeError | ValueError | IndexError | AttributeError | ZeroDivisionError

datatype pyfloat = Fin real | PInf | NInf | NaN

datatype pyval = VNone | VStr string | VFloat pyfloat

fun pf_gt :: "pyfloat \<Rightarrow> real \<Rightarrow> bool" where
  "pf_gt (Fin x) c = (c < x)"
| "pf_gt PInf c = True"
| "pf_gt NInf c = False"
| "pf_gt NaN c = False"

definition digit_char :: "nat \<Rightarrow> char" where
  "digit_char d = ''0123456789'' ! d"

fun str_nat :: "nat \<Rightarrow> string" where
  "str_nat n = (if n < 10 then [digit_char n] else str_nat (n div 10) @ [digit_char (n mod 10)])"

declare str_nat.simps [simp del]

definition str_int :: "int \<Rightarrow> string" where
  "str_int i = (if i < 0 then ''-'' @ str_nat (nat (- i)) else str_nat (nat i))"

fun fixed_digits :: "nat \<Rightarrow> nat \<Rightarrow> string" where
  "fixed_digits 0 n = []"
| "fixed_digits (Suc p) n = fixed_digits p (n div 10) @ [digit_char (n mod 10)]"

definition round_half_even :: "real \<Rightarrow> int" where
  "round_half_even r =
     (let f = \<lfloor>r\<rfloor>; d = r - of_int f
      in if d < 1/2 then f else if 1/2 < d then f + 1 else if even f then f else f + 1)"

definition format_f :: "nat \<Rightarrow> pyfloat \<Rightarrow> string" where
  "format_f p x =
     (case x of
        PInf \<Rightarrow> ''inf''
      | NInf \<Rightarrow> ''-inf''
      | NaN \<Rightarrow> ''nan''
      | Fin r \<Rightarrow>
          (let q = nat (round_half_even (\<bar>r\<bar> * 10 ^ p))
           in (if r < 0 then ''-'' else '''')
              @ str_nat (q div 10 ^ p)
              @ (if p = 0 then '''' else ''.'' @ fixed_digits p (q mod 10 ^ p))))"

definition is_space :: "char \<Rightarrow> bool" where
  "is_space c = (of_char c \<in> {9, 10, 11, 12, 13, 28, 29, 30, 31, 32 :: nat})"

definition strip :: "string \<Rightarrow> string" where
  "strip s = rev (dropWhile is_space (rev (dropWhile is_space s)))"

definition is_digit :: "char \<Rightarrow> bool" where
  "is_digit c = (c \<in> set ''0123456789'')"

definition digit_val :: "char \<Rightarrow> nat" where
  "digit_val c = of_char c - 48"

fun digitpart_ok :: "string \<Rightarrow> bool" where
  "digitpart_ok [] = False"
| "digitpart_ok [c] = is_digit c"
| "digitpart_ok (c # d # cs) =
     (is_digit c \<and> (if d = CHR ''_'' then digitpart_ok cs else digitpart_ok (d # cs)))"

definition digits_of :: "string \<Rightarrow> string" where
  "digits_of s = filter (\<lambda>c. c \<noteq> CHR ''_'') s"

definition digits_val :: "string \<Rightarrow> nat" where
  "digits_val s = foldl (\<lambda>a c. 10 * a + digit_val c) 0 (digits_of s)"

definition to_lower :: "char \<Rightarrow> char" where
  "to_lower c =
     (case map_of (zip ''ABCDEFGHIJKLMNOPQRSTUVWXYZ'' ''abcdefghijklmnopqrstuvwxyz'') c of
        Some l \<Rightarrow> l
      | None \<Rightarrow> c)"

definition parse_number :: "string \<Rightarrow> real option" where
  "parse_number m =
     (let ip = takeWhile (\<lambda>c. c \<noteq> CHR ''.'') m;
          rest = dropWhile (\<lambda>c. c \<noteq> CHR ''.'') m
      in if rest = [] then
           (if digitpart_ok ip then Some (of_nat (digits_val ip)) else None)
         else
           (let fp = tl rest
            in if (ip = [] \<or> digitpart_ok ip) \<and> (fp = [] \<or> digitpart_ok fp)
                  \<and> \<not> (ip = [] \<and> fp = [])
               then Some (of_nat (digits_val ip)
                          + of_nat (digits_val fp) / 10 ^ length (digits_of fp))
               else None))"

definition parse_exponent :: "string \<Rightarrow> int option" where
  "parse_exponent e =
     (case e of
        [] \<Rightarrow> None
      | c # r \<Rightarrow>
          if c = CHR ''+'' then (if digitpart_ok r then Some (int (digits_val r)) else None)
          else if c = CHR ''-'' then (if digitpart_ok r then Some (- int (digits_val r)) else None)
          else (if digitpart_ok e then Some (int (digits_val e)) else None))"

definition scale10 :: "real \<Rightarrow> int \<Rightarrow> real" where
  "scale10 r e = (if 0 \<le> e then r * 10 ^ nat e else r / 10 ^ nat (- e))"

definition parse_floatnumber :: "string \<Rightarrow> real option" where
  "parse_floatnumber b =
     (let m = takeWhile (\<lambda>c. c \<noteq> CHR ''e'' \<and> c \<noteq> CHR ''E'') b;
          ex = dropWhile (\<lambda>c. c \<noteq> CHR ''e'' \<and> c \<noteq> CHR ''E'') b
      in case parse_number m of
           None \<Rightarrow> None
         | Some r \<Rightarrow>
             if ex = [] then Some r
             else (case parse_exponent (tl ex) of
                     None \<Rightarrow> None
                   | Some e \<Rightarrow> Some (scale10 r e)))"

definition py_float :: "string \<Rightarrow> error + pyfloat" where
  "py_float s0 =
     (let s = strip s0;
          neg = (s \<noteq> [] \<and> hd s = CHR ''-'');
          body = (if s \<noteq> [] \<and> (hd s = CHR ''-'' \<or> hd s = CHR ''+'') then tl s else s);
          low = map to_lower body
      in if low = ''inf'' \<or> low = ''infinity'' then Inr (if neg then NInf else PInf)
         else if low = ''nan'' then Inr NaN
         else (case parse_floatnumber body of
                 None \<Rightarrow> Inl ValueError
               | Some r \<Rightarrow> Inr (Fin (if neg then - r else r))))"

definition safe_float_body :: "pyval \<Rightarrow> error + pyfloat" where
  "safe_float_body x =
     (case x of
        VNone \<Rightarrow> Inr (Fin 0)
      | VStr s \<Rightarrow> py_float (strip s)
      | VFloat f \<Rightarrow> Inr f)"

definition safe_float :: "pyval \<Rightarrow> error + pyfloat" where
  "safe_float x = (case safe_float_body x of Inl e \<Rightarrow> Inr (Fin 0) | Inr v \<Rightarrow> Inr v)"

section \<open>The joined record and the alert trigger\<close>

text \<open>
  A row of \<^verbatim>\<open>full_context\<close>: the unpacked window aggregate joined with the watchlist
  (\<^verbatim>\<open>app.py\<close>, lines 202-219). The right-hand columns are \<open>None\<close> when the left join
  found no watchlist row.
\<close>

record context_row =
  user_id :: string
  latest_time :: string
  amount :: pyfloat
  location :: string
  merchant :: string
  status :: string
  velocity_avg_1h :: pyfloat
  velocity_count_1h :: nat
  watchlist_risk :: "string option"
  watchlist_notes :: "string option"

text \<open>
  The same row after \<^verbatim>\<open>with_columns(amount_f=safe_float(amount),
  velocity_avg_f=safe_float(velocity_avg_1h))\<close> (lines 224-227).
\<close>

record typed_row = context_row +
  amount_f :: pyfloat
  velocity_avg_f :: pyfloat

definition bindE :: "error + 'a \<Rightarrow> ('a \<Rightarrow> error + 'b) \<Rightarrow> error + 'b" where
  "bindE m f = (case m of Inl e \<Rightarrow> Inl e | Inr v \<Rightarrow> f v)"

definition retype :: "context_row \<Rightarrow> error + typed_row" where
  "retype r =
     bindE (safe_float (VFloat (amount r))) (\<lambda>a.
     bindE (safe_float (VFloat (velocity_avg_1h r))) (\<lambda>v.
       Inr (context_row.extend r (typed_row.fields a v))))"

text \<open>
  The filter of lines 232-236: amount above 2000, or velocity above 5000, or the
  watchlist column is not null (\<^verbatim>\<open>~watchlist_risk.is_none()\<close>).
\<close>

definition alerts_trigger :: "typed_row \<Rightarrow> bool" where
  "alerts_trigger r =
     (pf_gt (amount_f r) 2000 \<or> pf_gt (velocity_avg_f r) 5000 \<or> watchlist_risk r \<noteq> None)"

section \<open>The rule engine\<close>

text \<open>\<^verbatim>\<open>risk not in (None, "", "None")\<close>\<close>

definition risk_flagged :: "string option \<Rightarrow> bool" where
  "risk_flagged risk = (risk \<noteq> None \<and> risk \<noteq> Some '''' \<and> risk \<noteq> Some ''None'')"

text \<open>Truth value of an optional string, as in \<^verbatim>\<open>if merchant:\<close>.\<close>

definition truthy :: "string option \<Rightarrow> bool" where
  "truthy s = (s \<noteq> None \<and> s \<noteq> Some '''')"

text \<open>\<^verbatim>\<open>x or d\<close> on an optional string.\<close>

definition str_or :: "string option \<Rightarrow> string \<Rightarrow> string" where
  "str_or x d = (case x of None \<Rightarrow> d | Some s \<Rightarrow> if s = [] then d else s)"

text \<open>An optional string inside an f-string: \<^verbatim>\<open>None\<close> prints as \<^verbatim>\<open>None\<close>.\<close>

definition py_str :: "string option \<Rightarrow> string" where
  "py_str x = (case x of None \<Rightarrow> ''None'' | Some s \<Rightarrow> s)"

text \<open>\<^verbatim>\<open>" ".join(reasons)\<close>\<close>

fun join_sp :: "string list \<Rightarrow> string" where
  "join_sp [] = []"
| "join_sp [x] = x"
| "join_sp (x # y # ys) = x @ '' '' @ join_sp (y # ys)"

definition amount_reason :: "pyfloat \<Rightarrow> string" where
  "amount_reason a = ''Single transaction $'' @ format_f 2 a @ '' exceeded threshold.''"

definition velocity_reason :: "pyfloat \<Rightarrow> int \<Rightarrow> string" where
  "velocity_reason v n =
     ''1h velocity $'' @ format_f 2 v @ '' exceeded threshold across '' @ str_int n @ '' txns.''"

definition watchlist_reason :: "string option \<Rightarrow> string option \<Rightarrow> string" where
  "watchlist_reason risk notes =
     ''Watchlist flag: '' @ py_str risk @ ''. Notes: '' @ str_or notes ''N/A''"

definition merchant_reason :: "string option \<Rightarrow> string" where
  "merchant_reason m = ''Merchant: '' @ py_str m"

definition location_reason :: "string option \<Rightarrow> string" where
  "location_reason l = ''Location: '' @ py_str l"

definition fallback_reason :: string where
  "fallback_reason = ''No suspicious indicators.''"

text \<open>
  \<^verbatim>\<open>rule_based_explanation\<close> (lines 241-257). A numeric argument that is \<open>None\<close> raises
  \<^verbatim>\<open>TypeError\<close> at its first comparison; \<^verbatim>\<open>amount > 2000\<close> is evaluated on line 243 and
  \<^verbatim>\<open>vel > 5000\<close> on line 247 at the latest, both before anything is returned.
  \<^verbatim>\<open>int(cnt)\<close> is evaluated only when the velocity reason is built.
\<close>

definition rule_based_explanation ::
  "pyfloat option \<Rightarrow> pyfloat option \<Rightarrow> int option \<Rightarrow> string option \<Rightarrow> string option
     \<Rightarrow> string option \<Rightarrow> string option \<Rightarrow> error + string" where
  "rule_based_explanation amt vel cnt risk notes merch loc =
     (case amt of
        None \<Rightarrow> Inl TypeError
      | Some a \<Rightarrow>
     (case vel of
        None \<Rightarrow> Inl TypeError
      | Some v \<Rightarrow>
     (let short = (if pf_gt a 2000 \<or> pf_gt v 5000 \<or> risk_flagged risk
                   then ''SUSPICIOUS'' else ''OK'');
          reasons1 = (if pf_gt a 2000 then [amount_reason a] else [])
      in bindE (if pf_gt v 5000
                then (case cnt of
                        None \<Rightarrow> Inl TypeError
                      | Some n \<Rightarrow> Inr (reasons1 @ [velocity_reason v n]))
                else Inr reasons1) (\<lambda>reasons2.
         (let reasons3 = (if risk_flagged risk
                          then reasons2 @ [watchlist_reason risk notes] else reasons2);
              reasons4 = (if truthy merch then reasons3 @ [merchant_reason merch] else reasons3);
              reasons5 = (if truthy loc then reasons4 @ [location_reason loc] else reasons4);
              reasons6 = (if reasons5 = [] then [fallback_reason] else reasons5)
          in Inr (''verdict='' @ short @ '' || '' @ join_sp reasons6))))))"

text \<open>The call of lines 259-267, on the columns of one row.\<close>

definition analysis_col :: "typed_row \<Rightarrow> error + string" where
  "analysis_col r =
     rule_based_explanation (Some (amount_f r)) (Some (velocity_avg_f r))
       (Some (int (velocity_count_1h r))) (watchlist_risk r) (watchlist_notes r)
       (Some (merchant r)) (Some (location r))"

section \<open>The output\<close>

datatype cell = CStr string | CFloat pyfloat | COptStr "string option"

text \<open>
  \<^verbatim>\<open>final_results\<close> (lines 272-279): the selected columns of one alerted row, in the order
  of the keyword arguments, which is the column order of the CSV writer.
\<close>

definition final_results_row :: "typed_row \<Rightarrow> error + (string \<times> cell) list" where
  "final_results_row r =
     bindE (analysis_col r) (\<lambda>a.
       Inr [(''time'', CStr (latest_time r)),
            (''user_id'', CStr (user_id r)),
            (''amount'', CFloat (amount_f r)),
            (''velocity_avg_1h'', CFloat (velocity_avg_f r)),
            (''watchlist_risk'', COptStr (watchlist_risk r)),
            (''analysis'', CStr a)])"

definition final_results :: "typed_row list \<Rightarrow> (error + (string \<times> cell) list) list" where
  "final_results rows = map final_results_row (filter alerts_trigger rows)"


text \<open>
  A joined row for an account that is on the watchlist with the risk level text
  \<^verbatim>\<open>None\<close>, a latest amount of 100 and a velocity of 100.
\<close>

definition listed_quiet_row :: typed_row where
  "listed_quiet_row =
     \<lparr>user_id = ''u7'', latest_time = ''2024-01-01T10:00:00'', amount = Fin 100,
      location = ''Delhi'', merchant = ''Amazon'', status = ''ok'',
      velocity_avg_1h = Fin 100, velocity_count_1h = 1,
      watchlist_risk = Some ''None'', watchlist_notes = Some ''cleared'',
      amount_f = Fin 100, velocity_avg_f = Fin 100\<rparr>"

section \<open>The composite key of a transaction\<close>

text \<open>\<^verbatim>\<open>s.split(sep, maxsplit)\<close> for a one-character separator.\<close>

fun split_max :: "char \<Rightarrow> nat \<Rightarrow> string \<Rightarrow> string list" where
  "split_max sep 0 s = [s]"
| "split_max sep (Suc n) s =
     (if sep \<in> set s
      then takeWhile (\<lambda>c. c \<noteq> sep) s # split_max sep n (tl (dropWhile (\<lambda>c. c \<noteq> sep) s))
      else [s])"

text \<open>\<^verbatim>\<open>xs[i]\<close> for a non-negative index: out of range raises \<^verbatim>\<open>IndexError\<close>.\<close>

definition py_index :: "'a list \<Rightarrow> nat \<Rightarrow> error + 'a" where
  "py_index xs i = (if i < length xs then Inr (xs ! i) else Inl IndexError)"

text \<open>
  \<^verbatim>\<open>make_meta_str\<close> (lines 101-107). \<^verbatim>\<open>float(amt)\<close> raises on \<open>None\<close> and on a text
  that is no float; the bare \<^verbatim>\<open>except\<close> then sets the amount part to \<^verbatim>\<open>0.0\<close>.
\<close>

definition make_meta_str ::
  "string option \<Rightarrow> pyval \<Rightarrow> string option \<Rightarrow> string option \<Rightarrow> string option \<Rightarrow> string" where
  "make_meta_str t amt loc merch stat =
     (let amt2 = (case (case amt of
                          VNone \<Rightarrow> Inl TypeError
                        | VStr s \<Rightarrow> py_float s
                        | VFloat f \<Rightarrow> Inr f) of
                    Inl e \<Rightarrow> ''0.0''
                  | Inr f \<Rightarrow> format_f 6 f)
      in str_or t '''' @ ''|'' @ amt2 @ ''|'' @ str_or loc '''' @ ''|''
         @ str_or merch '''' @ ''|'' @ str_or stat '''')"

text \<open>
  The unpacking functions (lines 109-139). \<^verbatim>\<open>meta_get_time\<close> has no handler and guards
  with \<^verbatim>\<open>if m\<close>; the other four catch every exception (\<^verbatim>\<open>AttributeError\<close> of
  \<^verbatim>\<open>None.split\<close>, \<^verbatim>\<open>IndexError\<close>, \<^verbatim>\<open>ValueError\<close>) and return a default.
\<close>

definition meta_parts :: "string option \<Rightarrow> error + string list" where
  "meta_parts m = (case m of None \<Rightarrow> Inl AttributeError | Some s \<Rightarrow> Inr (split_max CHR ''|'' 4 s))"

definition meta_get_time :: "string option \<Rightarrow> error + string" where
  "meta_get_time m =
     (if m = None \<or> m = Some '''' then Inr ''''
      else bindE (meta_parts m) (\<lambda>ps. py_index ps 0))"

definition meta_get_amount :: "string option \<Rightarrow> error + pyfloat" where
  "meta_get_amount m =
     (case bindE (meta_parts m) (\<lambda>ps. bindE (py_index ps 1) py_float) of
        Inl e \<Rightarrow> Inr (Fin 0)
      | Inr v \<Rightarrow> Inr v)"

definition meta_get_text :: "nat \<Rightarrow> string option \<Rightarrow> error + string" where
  "meta_get_text i m =
     (case bindE (meta_parts m) (\<lambda>ps. py_index ps i) of
        Inl e \<Rightarrow> Inr ''''
      | Inr v \<Rightarrow> Inr v)"

definition meta_get_location :: "string option \<Rightarrow> error + string" where
  "meta_get_location m = meta_get_text 2 m"

definition meta_get_merchant :: "string option \<Rightarrow> error + string" where
  "meta_get_merchant m = meta_get_text 3 m"

definition meta_get_status :: "string option \<Rightarrow> error + string" where
  "meta_get_status m = meta_get_text 4 m"

text \<open>
  The value that \<^verbatim>\<open>float(f"{x:.6f}")\<close> gives back for a float \<open>x\<close>: \<open>x\<close> rounded to six
  decimal places, ties to even.
\<close>

definition round6 :: "pyfloat \<Rightarrow> pyfloat" where
  "round6 x =
     (case x of
        Fin r \<Rightarrow>
          (let q = real_of_int (round_half_even (\<bar>r\<bar> * 10 ^ 6)) / 10 ^ 6
           in Fin (if r < 0 then - q else q))
      | PInf \<Rightarrow> PInf
      | NInf \<Rightarrow> NInf
      | NaN \<Rightarrow> NaN)"

text \<open>
  The key column of a transaction whose fields are all present, and the five columns
  that lines 191-197 unpack from a key.
\<close>

definition tx_key :: "string \<Rightarrow> pyfloat \<Rightarrow> string \<Rightarrow> string \<Rightarrow> string \<Rightarrow> string option" where
  "tx_key t a loc merch stat =
     Some (make_meta_str (Some t) (VFloat a) (Some loc) (Some merch) (Some stat))"

definition unpacked_fields ::
  "string option \<Rightarrow>
     (error + string) \<times> (error + pyfloat) \<times> (error + string) \<times> (error + string)
       \<times> (error + string)" where
  "unpacked_fields m =
     (meta_get_time m, meta_get_amount m, meta_get_location m, meta_get_merchant m,
      meta_get_status m)"

section \<open>The transaction stream and the sliding windows\<close>

text \<open>
  A row of \<^verbatim>\<open>t_stream\<close> (lines 144-161). \<open>t_parsed_time\<close> is the result of
  \<^verbatim>\<open>strptime\<close> on the time text, in seconds; the date parser of the library is not
  modelled and its result is a field of the row.
\<close>

record t_row =
  t_user_id :: string
  t_time_str :: string
  t_parsed_time :: int
  t_amount_f :: pyfloat
  t_location :: string
  t_merchant :: string
  t_status :: string
  t_meta :: string

definition t_row_of ::
  "int \<Rightarrow> string \<Rightarrow> string \<Rightarrow> pyfloat \<Rightarrow> string \<Rightarrow> string \<Rightarrow> string \<Rightarrow> t_row" where
  "t_row_of parsed time user a merch loc stat =
     \<lparr>t_user_id = user, t_time_str = time, t_parsed_time = parsed, t_amount_f = a,
      t_location = loc, t_merchant = merch, t_status = stat,
      t_meta = make_meta_str (Some time) (VFloat a) (Some loc) (Some merch) (Some stat)\<rparr>"

definition t_stream_row ::
  "int \<Rightarrow> string \<Rightarrow> string \<Rightarrow> string \<Rightarrow> string \<Rightarrow> string \<Rightarrow> string \<Rightarrow> error + t_row" where
  "t_stream_row parsed time user amt merch loc stat =
     bindE (safe_float (VStr amt)) (\<lambda>a. Inr (t_row_of parsed time user a merch loc stat))"

text \<open>
  \<^verbatim>\<open>pw.temporal.sliding(duration, hop)\<close>: a row with time \<open>ts\<close> is assigned to every
  window \<open>[origin + k * hop, origin + k * hop + duration)\<close> that contains \<open>ts\<close>. The
  windows are half-open intervals, given by their start and end.
\<close>

type_synonym window = "int \<times> int"

definition assign_windows :: "int \<Rightarrow> int \<Rightarrow> int \<Rightarrow> int \<Rightarrow> window list" where
  "assign_windows origin hop duration ts =
     (let first_k = (ts - origin - duration) div hop + 1;
          last_k = (ts - origin) div hop
      in map (\<lambda>k. (origin + k * hop, origin + k * hop + duration)) [first_k..last_k])"

definition windowby :: "int \<Rightarrow> int \<Rightarrow> int \<Rightarrow> t_row list \<Rightarrow> (window \<times> t_row) list" where
  "windowby origin hop duration rows =
     concat (map (\<lambda>r. map (\<lambda>w. (w, r))
                          (assign_windows origin hop duration (t_parsed_time r))) rows)"

text \<open>
  \<^verbatim>\<open>groupby(pw.this.user_id)\<close> on the windowed table (line 172). The windowed table has
  one row for every transaction and every window the transaction falls in. The key of a
  group is the \<open>user_id\<close> alone: the window of a row is no part of it, so the group of an
  account holds each of its transactions once for every window that contains it.
\<close>

definition group_keys :: "(window \<times> t_row) list \<Rightarrow> string list" where
  "group_keys wrs = remdups (map (\<lambda>(w, r). t_user_id r) wrs)"

definition group_rows :: "string \<Rightarrow> (window \<times> t_row) list \<Rightarrow> t_row list" where
  "group_rows u wrs = map snd (filter (\<lambda>(w, r). t_user_id r = u) wrs)"

text \<open>Float addition with the special values, and the \<^verbatim>\<open>sum\<close> reducer.\<close>

fun pf_add :: "pyfloat \<Rightarrow> pyfloat \<Rightarrow> pyfloat" where
  "pf_add (Fin a) (Fin b) = Fin (a + b)"
| "pf_add NaN y = NaN"
| "pf_add x NaN = NaN"
| "pf_add PInf NInf = NaN"
| "pf_add NInf PInf = NaN"
| "pf_add PInf y = PInf"
| "pf_add x PInf = PInf"
| "pf_add NInf y = NInf"
| "pf_add x NInf = NInf"

definition reducers_sum :: "pyfloat list \<Rightarrow> pyfloat" where
  "reducers_sum xs = foldl pf_add (Fin 0) xs"

record window_row =
  w_user_id :: string
  w_velocity_sum_1h :: pyfloat
  w_velocity_count_1h :: nat
  w_latest_meta :: string

text \<open>
  The \<^verbatim>\<open>reduce\<close> of lines 173-178 on one group: it emits the \<open>user_id\<close> and the three
  reducers, and no window column. A group exists only for a key that some row has, so it
  is never empty; \<^verbatim>\<open>pw.reducers.max\<close> on strings takes the greatest string in the
  lexicographic order of the bytes.
\<close>

definition reduce_group :: "string \<Rightarrow> t_row list \<Rightarrow> window_row option" where
  "reduce_group u g =
     (case g of
        [] \<Rightarrow> None
      | r # rs \<Rightarrow>
          Some \<lparr>w_user_id = u,
                w_velocity_sum_1h = reducers_sum (map t_amount_f g),
                w_velocity_count_1h = length g,
                w_latest_meta = foldl max (t_meta r) (map t_meta rs)\<rparr>)"

definition sliding_stats :: "int \<Rightarrow> int \<Rightarrow> int \<Rightarrow> t_row list \<Rightarrow> window_row list" where
  "sliding_stats origin hop duration rows =
     (let wrs = windowby origin hop duration rows
      in List.map_filter (\<lambda>u. reduce_group u (group_rows u wrs)) (group_keys wrs))"

text \<open>\<^verbatim>\<open>window_stats\<close> (lines 166-179): 60 minutes duration, 1 minute hop, in seconds.\<close>

definition window_stats :: "int \<Rightarrow> t_row list \<Rightarrow> window_row list" where
  "window_stats origin rows = sliding_stats origin 60 3600 rows"

text \<open>The aggregate that the table holds for an account.\<close>

definition stats_of :: "string \<Rightarrow> window_row list \<Rightarrow> window_row option" where
  "stats_of u out = find (\<lambda>s. w_user_id s = u) out"

text \<open>The rows of one user whose time lies in the half-open interval of a window.\<close>

definition in_window :: "window \<Rightarrow> string \<Rightarrow> t_row list \<Rightarrow> t_row list" where
  "in_window w u rows =
     filter (\<lambda>r. t_user_id r = u \<and> fst w \<le> t_parsed_time r \<and> t_parsed_time r < snd w) rows"

text \<open>
  Example streams; times are seconds since midnight of 2024-01-01. In the first, account
  \<^verbatim>\<open>u101\<close> has transactions at 10:00 (500) and 10:30 (3000) and one at 11:00, which lies
  outside the window from 10:00 to 11:00, and another account has one at 10:15. In the
  second, two transactions of one account have the same timestamp and the amounts 999
  and 1000.
\<close>

definition scenario_rows :: "t_row list" where
  "scenario_rows =
     [t_row_of 36000 ''2024-01-01T10:00:00'' ''u101'' (Fin 500) ''Amazon'' ''Delhi'' ''ok'',
      t_row_of 36900 ''2024-01-01T10:15:00'' ''u202'' (Fin 70) ''Flipkart'' ''Pune'' ''ok'',
      t_row_of 37800 ''2024-01-01T10:30:00'' ''u101'' (Fin 3000) ''Amazon'' ''Delhi'' ''ok'',
      t_row_of 39600 ''2024-01-01T11:00:00'' ''u101'' (Fin 40) ''Amazon'' ''Delhi'' ''ok'']"

definition tie_rows :: "t_row list" where
  "tie_rows =
     [t_row_of 36000 ''2024-01-01T10:00:00'' ''u101'' (Fin 999) ''Amazon'' ''Delhi'' ''ok'',
      t_row_of 36000 ''2024-01-01T10:00:00'' ''u101'' (Fin 1000) ''Amazon'' ''Delhi'' ''ok'']"

section \<open>The average\<close>

text \<open>
  Float division with the special values; a zero divisor raises. Line 185 divides the
  sum by \<^verbatim>\<open>count + 1e-9\<close>.
\<close>

fun pf_div :: "pyfloat \<Rightarrow> pyfloat \<Rightarrow> error + pyfloat" where
  "pf_div x (Fin b) =
     (if b = 0 then Inl ZeroDivisionError
      else Inr (case x of
                  Fin a \<Rightarrow> Fin (a / b)
                | PInf \<Rightarrow> (if 0 < b then PInf else NInf)
                | NInf \<Rightarrow> (if 0 < b then NInf else PInf)
                | NaN \<Rightarrow> NaN))"
| "pf_div x NaN = Inr NaN"
| "pf_div (Fin a) y = Inr (Fin 0)"
| "pf_div x y = Inr NaN"

definition velocity_avg :: "pyfloat \<Rightarrow> nat \<Rightarrow> error + pyfloat" where
  "velocity_avg s n = pf_div s (Fin (real n + 1 / 10 ^ 9))"

section \<open>The join with the watchlist\<close>

record watch_entry =
  entity_id :: string
  risk_level :: string
  entry_notes :: string

text \<open>
  One joined row: the average of line 185, the unpacked key of lines 191-197 and the
  selection of lines 206-219, for a window aggregate and the watchlist row joined to it
  (\<open>None\<close> when the left join found none).
\<close>

definition joined_row :: "window_row \<Rightarrow> watch_entry option \<Rightarrow> error + context_row" where
  "joined_row s e =
     bindE (velocity_avg (w_velocity_sum_1h s) (w_velocity_count_1h s)) (\<lambda>avg.
     bindE (meta_get_time (Some (w_latest_meta s))) (\<lambda>lt.
     bindE (meta_get_amount (Some (w_latest_meta s))) (\<lambda>am.
     bindE (meta_get_location (Some (w_latest_meta s))) (\<lambda>lo.
     bindE (meta_get_merchant (Some (w_latest_meta s))) (\<lambda>me.
     bindE (meta_get_status (Some (w_latest_meta s))) (\<lambda>st.
       Inr \<lparr>user_id = w_user_id s, latest_time = lt, amount = am, location = lo,
            merchant = me, status = st, velocity_avg_1h = avg,
            velocity_count_1h = w_velocity_count_1h s,
            watchlist_risk = map_option risk_level e,
            watchlist_notes = map_option entry_notes e\<rparr>))))))"

text \<open>
  The left join of lines 202-205: a window aggregate is paired with every watchlist row
  whose \<open>entity_id\<close> equals its \<open>user_id\<close>, and with no row (nulls on the right) when
  there is none.
\<close>

definition matches :: "window_row \<Rightarrow> watch_entry list \<Rightarrow> watch_entry list" where
  "matches s ws = filter (\<lambda>e. entity_id e = w_user_id s) ws"

definition join_one :: "window_row \<Rightarrow> watch_entry list \<Rightarrow> (error + context_row) list" where
  "join_one s ws =
     (if matches s ws = [] then [joined_row s None]
      else map (\<lambda>e. joined_row s (Some e)) (matches s ws))"

definition full_context :: "window_row list \<Rightarrow> watch_entry list \<Rightarrow> (error + context_row) list" where
  "full_context ss ws = concat (map (\<lambda>s. join_one s ws) ss)"

text \<open>
  The sum and count in the words of the specification: over exactly the transactions of
  the account whose timestamp lies in the half-open interval of the window (no aggregate
  when there is no such transaction).
\<close>

definition interval_sum_count :: "window \<Rightarrow> string \<Rightarrow> t_row list \<Rightarrow> (pyfloat \<times> nat) option" where
  "interval_sum_count w u rows =
     (if in_window w u rows = [] then None
      else Some (reducers_sum (map t_amount_f (in_window w u rows)),
                 length (in_window w u rows)))"

section \<open>Evaluation rules\<close>

lemma str_nat_numeral:
  "str_nat (numeral k) =
     (if (numeral k :: nat) < 10 then [digit_char (numeral k)]
      else str_nat (numeral k div 10) @ [digit_char (numeral k mod 10)])"
  by (rule str_nat.simps)

lemma str_nat_0: "str_nat 0 = ''0''"
  by (simp add: str_nat.simps digit_char_def)

lemma str_nat_1: "str_nat (Suc 0) = ''1''" "str_nat 1 = ''1''"
  by (simp_all add: str_nat.simps digit_char_def)

lemma fixed_digits_numeral:
  "fixed_digits (numeral k) n = fixed_digits (pred_numeral k) (n div 10) @ [digit_char (n mod 10)]"
proof -
  have "fixed_digits (Suc (pred_numeral k)) n =
          fixed_digits (pred_numeral k) (n div 10) @ [digit_char (n mod 10)]"
    by (rule fixed_digits.simps)
  then show ?thesis by (simp only: numeral_eq_Suc [symmetric, of k])
qed

lemmas fmt_eval = format_f_def round_half_even_def str_nat_numeral str_nat_0 str_nat_1
  digit_char_def Let_def fixed_digits_numeral str_int_def

lemmas parse_eval = py_float_def strip_def is_space_def parse_floatnumber_def parse_number_def
  parse_exponent_def scale10_def digits_val_def digits_of_def digit_val_def is_digit_def
  to_lower_def Let_def safe_float_def safe_float_body_def
section \<open>Decimal digits\<close>

lemma lt10_cases:
  "d < (10::nat) \<Longrightarrow>
     d = 0 \<or> d = 1 \<or> d = 2 \<or> d = 3 \<or> d = 4 \<or> d = 5 \<or> d = 6 \<or> d = 7 \<or> d = 8 \<or> d = 9"
  by arith

lemma digit_char_is_digit: "d < 10 \<Longrightarrow> is_digit (digit_char d)"
  by (drule lt10_cases) (auto simp add: digit_char_def is_digit_def)

lemma digit_val_digit_char: "d < 10 \<Longrightarrow> digit_val (digit_char d) = d"
  by (drule lt10_cases) (auto simp add: digit_char_def digit_val_def)

lemma is_digit_cases:
  "is_digit c \<Longrightarrow>
     c = CHR ''0'' \<or> c = CHR ''1'' \<or> c = CHR ''2'' \<or> c = CHR ''3'' \<or> c = CHR ''4'' \<or>
     c = CHR ''5'' \<or> c = CHR ''6'' \<or> c = CHR ''7'' \<or> c = CHR ''8'' \<or> c = CHR ''9''"
  by (simp add: is_digit_def)

lemma is_digit_not_special:
  assumes "is_digit c"
  shows "c \<noteq> CHR ''_''" "c \<noteq> CHR ''.''" "c \<noteq> CHR ''e''" "c \<noteq> CHR ''E''"
    "c \<noteq> CHR ''|''" "c \<noteq> CHR ''-''" "c \<noteq> CHR ''+''" "\<not> is_space c"
    "to_lower c = c" "c \<noteq> CHR ''i''" "c \<noteq> CHR ''n''"
  using is_digit_cases [OF assms]
  by (elim disjE; simp add: is_space_def to_lower_def)+

lemma str_nat_digits: "c \<in> set (str_nat n) \<Longrightarrow> is_digit c"
proof (induction n arbitrary: c rule: str_nat.induct)
  case (1 n)
  show ?case
  proof (cases "n < 10")
    case True
    with "1.prems" show ?thesis
      by (simp add: str_nat.simps [of n] digit_char_is_digit)
  next
    case False
    with "1.prems" have "c \<in> set (str_nat (n div 10)) \<or> c = digit_char (n mod 10)"
      by (auto simp add: str_nat.simps [of n])
    then show ?thesis
    proof
      assume "c \<in> set (str_nat (n div 10))"
      with False "1.IH" show ?thesis by simp
    next
      assume "c = digit_char (n mod 10)"
      then show ?thesis by (simp add: digit_char_is_digit)
    qed
  qed
qed

lemma str_nat_nonempty: "str_nat n \<noteq> []"
  by (simp add: str_nat.simps [of n])

lemma fixed_digits_digits: "c \<in> set (fixed_digits p n) \<Longrightarrow> is_digit c"
  by (induction p arbitrary: n) (auto simp add: digit_char_is_digit)

lemma length_fixed_digits: "length (fixed_digits p n) = p"
  by (induction p arbitrary: n) auto

lemma digits_of_digits: "(\<And>c. c \<in> set s \<Longrightarrow> is_digit c) \<Longrightarrow> digits_of s = s"
  unfolding digits_of_def by (rule filter_True) (auto dest: is_digit_not_special(1))

lemma digits_val_snoc:
  "c \<noteq> CHR ''_'' \<Longrightarrow> digits_val (s @ [c]) = 10 * digits_val s + digit_val c"
  by (simp add: digits_val_def digits_of_def)

lemma digits_val_str_nat: "digits_val (str_nat n) = n"
proof (induction n rule: str_nat.induct)
  case (1 n)
  show ?case
  proof (cases "n < 10")
    case True
    then show ?thesis
      by (simp add: str_nat.simps [of n] digits_val_def digits_of_def digit_val_digit_char
          is_digit_not_special(1) digit_char_is_digit)
  next
    case False
    have "digit_char (n mod 10) \<noteq> CHR ''_''"
      by (simp add: is_digit_not_special(1) digit_char_is_digit)
    with False "1.IH" show ?thesis
      by (simp add: str_nat.simps [of n] digits_val_snoc digit_val_digit_char)
  qed
qed

lemma digits_val_fixed_digits: "digits_val (fixed_digits p n) = n mod 10 ^ p"
proof (induction p arbitrary: n)
  case 0
  show ?case by (simp add: digits_val_def digits_of_def)
next
  case (Suc p)
  have ne: "digit_char (n mod 10) \<noteq> CHR ''_''"
    by (simp add: is_digit_not_special(1) digit_char_is_digit)
  have "n mod (10 * 10 ^ p) = 10 * (n div 10 mod 10 ^ p) + n mod 10"
    by (rule mod_mult2_eq)
  with Suc ne show ?case
    by (simp add: digits_val_snoc digit_val_digit_char)
qed

lemma digitpart_ok_digits:
  "s \<noteq> [] \<Longrightarrow> (\<And>c. c \<in> set s \<Longrightarrow> is_digit c) \<Longrightarrow> digitpart_ok s"
proof (induction s rule: digitpart_ok.induct)
  case 1
  then show ?case by simp
next
  case (2 c)
  then show ?case by simp
next
  case (3 c d cs)
  have "d \<noteq> CHR ''_''"
    using "3.prems"(2) [of d] by (simp add: is_digit_not_special(1))
  with 3 show ?case by simp
qed

section \<open>Parsing a printed decimal\<close>

lemma strip_id:
  assumes "s \<noteq> []" "\<not> is_space (hd s)" "\<not> is_space (last s)"
  shows "strip s = s"
proof -
  from assms(1,2) have a: "dropWhile is_space s = s"
    by (cases s) simp_all
  from assms(1,3) have "dropWhile is_space (rev s) = rev s"
    by (cases "rev s") (simp_all add: hd_rev [symmetric])
  with a show ?thesis by (simp add: strip_def)
qed

lemma parse_number_decimal:
  assumes I: "I \<noteq> []" "\<And>c. c \<in> set I \<Longrightarrow> is_digit c"
    and F: "F \<noteq> []" "\<And>c. c \<in> set F \<Longrightarrow> is_digit c"
  shows "parse_number (I @ CHR ''.'' # F) =
           Some (real (digits_val I) + real (digits_val F) / 10 ^ length F)"
proof -
  have tw: "takeWhile (\<lambda>c. c \<noteq> CHR ''.'') (I @ CHR ''.'' # F) = I"
    using I(2) by (simp add: takeWhile_append2 is_digit_not_special(2))
  have dw: "dropWhile (\<lambda>c. c \<noteq> CHR ''.'') (I @ CHR ''.'' # F) = CHR ''.'' # F"
    using I(2) by (simp add: dropWhile_append2 is_digit_not_special(2))
  have okI: "digitpart_ok I" using I by (rule digitpart_ok_digits)
  have okF: "digitpart_ok F" using F by (rule digitpart_ok_digits)
  have dF: "digits_of F = F" using F(2) by (rule digits_of_digits)
  show ?thesis
    unfolding parse_number_def tw dw Let_def
    using I(1) okI okF dF by simp
qed

lemma parse_floatnumber_decimal:
  assumes I: "I \<noteq> []" "\<And>c. c \<in> set I \<Longrightarrow> is_digit c"
    and F: "F \<noteq> []" "\<And>c. c \<in> set F \<Longrightarrow> is_digit c"
  shows "parse_floatnumber (I @ CHR ''.'' # F) =
           Some (real (digits_val I) + real (digits_val F) / 10 ^ length F)"
proof -
  have all: "\<forall>c \<in> set (I @ CHR ''.'' # F). c \<noteq> CHR ''e'' \<and> c \<noteq> CHR ''E''"
    using I(2) F(2) by (auto dest: is_digit_not_special(3,4))
  then have tw: "takeWhile (\<lambda>c. c \<noteq> CHR ''e'' \<and> c \<noteq> CHR ''E'') (I @ CHR ''.'' # F)
                   = I @ CHR ''.'' # F"
    by (simp only: takeWhile_eq_all_conv)
  from all have dw: "dropWhile (\<lambda>c. c \<noteq> CHR ''e'' \<and> c \<noteq> CHR ''E'') (I @ CHR ''.'' # F) = []"
    by (simp only: dropWhile_eq_Nil_conv)
  show ?thesis
    unfolding parse_floatnumber_def tw dw Let_def
    by (simp add: parse_number_decimal [OF I F])
qed

lemma not_special_word:
  assumes "b \<noteq> []" "is_digit (hd b)"
  shows "map to_lower b \<noteq> ''inf''" "map to_lower b \<noteq> ''infinity''" "map to_lower b \<noteq> ''nan''"
  using assms by (cases b; auto simp add: is_digit_not_special)+

lemma py_float_decimal:
  assumes I: "I \<noteq> []" "\<And>c. c \<in> set I \<Longrightarrow> is_digit c"
    and F: "F \<noteq> []" "\<And>c. c \<in> set F \<Longrightarrow> is_digit c"
  shows "py_float (I @ CHR ''.'' # F) =
           Inr (Fin (real (digits_val I) + real (digits_val F) / 10 ^ length F))"
    and "py_float (CHR ''-'' # I @ CHR ''.'' # F) =
           Inr (Fin (- (real (digits_val I) + real (digits_val F) / 10 ^ length F)))"
proof -
  let ?b = "I @ CHR ''.'' # F"
  have hdI: "is_digit (hd ?b)" using I by (cases I) simp_all
  have lastb: "last ?b = last F" "last (CHR ''-'' # ?b) = last F"
    using F(1) by simp_all
  have "is_digit (last F)" using F by simp
  then have nl: "\<not> is_space (last F)" by (rule is_digit_not_special(8))
  have nh: "\<not> is_space (hd ?b)" using hdI by (rule is_digit_not_special(8))
  have ne: "?b \<noteq> []" by simp
  have s1: "strip ?b = ?b"
  proof (rule strip_id)
    show "?b \<noteq> []" by (rule ne)
    show "\<not> is_space (hd ?b)" by (rule nh)
    show "\<not> is_space (last ?b)" unfolding lastb by (rule nl)
  qed
  have s2: "strip (CHR ''-'' # ?b) = CHR ''-'' # ?b"
  proof (rule strip_id)
    show "CHR ''-'' # ?b \<noteq> []" by simp
    show "\<not> is_space (hd (CHR ''-'' # ?b))" by (simp add: is_space_def)
    show "\<not> is_space (last (CHR ''-'' # ?b))" unfolding lastb by (rule nl)
  qed
  have h: "hd ?b \<noteq> CHR ''-''" "hd ?b \<noteq> CHR ''+''"
    using hdI by (simp_all add: is_digit_not_special)
  note w = not_special_word [OF ne hdI]
  show "py_float ?b = Inr (Fin (real (digits_val I) + real (digits_val F) / 10 ^ length F))"
    unfolding py_float_def s1 Let_def
    using h w by (simp add: parse_floatnumber_decimal [OF I F])
  show "py_float (CHR ''-'' # ?b) =
          Inr (Fin (- (real (digits_val I) + real (digits_val F) / 10 ^ length F)))"
    unfolding py_float_def s2 Let_def
    using w by (simp add: parse_floatnumber_decimal [OF I F])
qed

lemma round_half_even_nonneg: "0 \<le> r \<Longrightarrow> 0 \<le> round_half_even r"
  by (simp add: round_half_even_def Let_def)

lemma py_float_format_f: "py_float (format_f 6 x) = Inr (round6 x)"
proof (cases x)
  case (Fin r)
  define q where "q = nat (round_half_even (\<bar>r\<bar> * 10 ^ 6))"
  let ?I = "str_nat (q div 10 ^ 6)"
  let ?F = "fixed_digits 6 (q mod 10 ^ 6)"
  have I: "?I \<noteq> []" "\<And>c. c \<in> set ?I \<Longrightarrow> is_digit c"
    by (rule str_nat_nonempty) (rule str_nat_digits)
  have F: "?F \<noteq> []" "\<And>c. c \<in> set ?F \<Longrightarrow> is_digit c"
    using length_fixed_digits [of 6 "q mod 10 ^ 6"] fixed_digits_digits by auto
  have "real (q div 10 ^ 6) * 10 ^ 6 + real (q mod 10 ^ 6) = real q"
    by (metis (no_types) div_mult_mod_eq of_nat_add of_nat_mult of_nat_numeral of_nat_power)
  then have val: "real (digits_val ?I) + real (digits_val ?F) / 10 ^ length ?F = real q / 10 ^ 6"
    by (simp add: digits_val_str_nat digits_val_fixed_digits length_fixed_digits field_simps)
  have qq: "real q = real_of_int (round_half_even (\<bar>r\<bar> * 10 ^ 6))"
    unfolding q_def using round_half_even_nonneg [of "\<bar>r\<bar> * 10 ^ 6"] by simp
  have fmt: "format_f 6 x =
      (if r < 0 then CHR ''-'' # ?I @ CHR ''.'' # ?F else ?I @ CHR ''.'' # ?F)"
    by (simp add: format_f_def Fin q_def Let_def)
  have r6: "round6 x = Fin (if r < 0 then - (real q / 10 ^ 6) else real q / 10 ^ 6)"
    unfolding round6_def Fin qq Let_def by simp
  have neg: "py_float (CHR ''-'' # ?I @ CHR ''.'' # ?F) = Inr (Fin (- (real q / 10 ^ 6)))"
    using py_float_decimal(2) [OF I F] by (simp only: val)
  have pos: "py_float (?I @ CHR ''.'' # ?F) = Inr (Fin (real q / 10 ^ 6))"
    using py_float_decimal(1) [OF I F] by (simp only: val)
  show ?thesis
  proof (cases "r < 0")
    case True
    then show ?thesis by (simp only: fmt r6 neg if_True)
  next
    case False
    then show ?thesis by (simp only: fmt r6 pos if_False)
  qed
next
  case PInf
  then show ?thesis by (simp add: format_f_def round6_def parse_eval)
next
  case NInf
  then show ?thesis by (simp add: format_f_def round6_def parse_eval)
next
  case NaN
  then show ?thesis by (simp add: format_f_def round6_def parse_eval)
qed

lemma format_f_no_bar: "CHR ''|'' \<notin> set (format_f 6 x)"
proof (cases x)
  case (Fin r)
  have "\<And>c. c \<in> set (format_f 6 x) \<Longrightarrow> c = CHR ''-'' \<or> c = CHR ''.'' \<or> is_digit c"
    by (auto simp add: format_f_def Fin Let_def dest: str_nat_digits fixed_digits_digits
        split: if_splits)
  then show ?thesis
    by (auto dest: is_digit_not_special(5))
qed (simp_all add: format_f_def)

section \<open>Splitting the composite key\<close>

lemma split_max_step:
  assumes "sep \<notin> set x"
  shows "split_max sep (Suc n) (x @ sep # rest) = x # split_max sep n rest"
proof -
  have all: "\<And>c. c \<in> set x \<Longrightarrow> c \<noteq> sep"
    using assms by auto
  have tw: "takeWhile (\<lambda>c. c \<noteq> sep) (x @ sep # rest) = x"
    using all by (simp add: takeWhile_append2)
  have dw: "dropWhile (\<lambda>c. c \<noteq> sep) (x @ sep # rest) = sep # rest"
    using all by (simp add: dropWhile_append2)
  show ?thesis by (simp add: tw dw)
qed

lemma index_head_of_rest:
  assumes "q \<noteq> []" "hd q \<noteq> v"
  shows "py_index (pre @ q) (length pre) \<noteq> Inr v"
  using assms by (cases q) (simp_all add: py_index_def nth_append)

lemma split_max_head:
  assumes "sep \<in> set x"
  shows "hd (split_max sep (Suc n) (x @ rest)) = takeWhile (\<lambda>c. c \<noteq> sep) x"
    and "takeWhile (\<lambda>c. c \<noteq> sep) x \<noteq> x"
proof -
  have "takeWhile (\<lambda>c. c \<noteq> sep) (x @ rest) = takeWhile (\<lambda>c. c \<noteq> sep) x"
    using assms by (simp add: takeWhile_append1)
  with assms show "hd (split_max sep (Suc n) (x @ rest)) = takeWhile (\<lambda>c. c \<noteq> sep) x"
    by simp
  show "takeWhile (\<lambda>c. c \<noteq> sep) x \<noteq> x"
    using assms by (simp add: takeWhile_eq_all_conv)
qed

lemma four_Suc: "(4::nat) = Suc (Suc (Suc (Suc 0)))"
  by simp

lemma key_shape:
  "make_meta_str (Some t) (VFloat a) (Some loc) (Some merch) (Some stat) =
     t @ CHR ''|'' # format_f 6 a @ CHR ''|'' # loc @ CHR ''|'' # merch @ CHR ''|'' # stat"
  by (simp add: make_meta_str_def str_or_def)

lemma key_parts:
  assumes "CHR ''|'' \<notin> set t" "CHR ''|'' \<notin> set loc" "CHR ''|'' \<notin> set merch"
  shows "split_max CHR ''|'' 4
           (make_meta_str (Some t) (VFloat a) (Some loc) (Some merch) (Some stat)) =
         [t, format_f 6 a, loc, merch, stat]"
  unfolding key_shape four_Suc
  by (simp only: split_max_step [OF assms(1)] split_max_step [OF format_f_no_bar]
      split_max_step [OF assms(2)] split_max_step [OF assms(3)] split_max.simps(1))

lemma key_time_broken:
  assumes "CHR ''|'' \<in> set t"
  shows "meta_get_time (Some (make_meta_str (Some t) (VFloat a) (Some loc) (Some merch) (Some stat)))
           \<noteq> Inr t"
proof -
  let ?m = "make_meta_str (Some t) (VFloat a) (Some loc) (Some merch) (Some stat)"
  let ?ps = "split_max CHR ''|'' 4 ?m"
  have h: "hd ?ps = takeWhile (\<lambda>c. c \<noteq> CHR ''|'') t"
    unfolding key_shape four_Suc by (rule split_max_head(1) [OF assms])
  have ne: "?ps \<noteq> []"
    unfolding four_Suc by simp
  then have "?ps ! 0 = hd ?ps" "0 < length ?ps"
    by (simp_all add: hd_conv_nth)
  with h split_max_head(2) [OF assms] have "py_index ?ps 0 \<noteq> Inr t"
    by (simp add: py_index_def)
  moreover have "?m \<noteq> []"
    by (simp add: key_shape)
  ultimately show ?thesis
    by (simp add: meta_get_time_def meta_parts_def bindE_def)
qed

lemma key_location_broken:
  assumes "CHR ''|'' \<notin> set t" "CHR ''|'' \<in> set loc"
  shows "meta_get_location
           (Some (make_meta_str (Some t) (VFloat a) (Some loc) (Some merch) (Some stat)))
           \<noteq> Inr loc"
proof -
  let ?m = "make_meta_str (Some t) (VFloat a) (Some loc) (Some merch) (Some stat)"
  let ?r = "loc @ CHR ''|'' # merch @ CHR ''|'' # stat"
  let ?q = "split_max CHR ''|'' (Suc (Suc 0)) ?r"
  have ps: "split_max CHR ''|'' 4 ?m = [t, format_f 6 a] @ ?q"
    unfolding key_shape four_Suc
    by (simp only: split_max_step [OF assms(1)] split_max_step [OF format_f_no_bar]
        append.simps)
  have h: "hd ?q = takeWhile (\<lambda>c. c \<noteq> CHR ''|'') loc"
    by (rule split_max_head(1) [OF assms(2)])
  have nq: "?q \<noteq> []" by simp
  have hq: "hd ?q \<noteq> loc"
    unfolding h by (rule split_max_head(2) [OF assms(2)])
  have len: "length [t, format_f 6 a] = 2" by simp
  have ix: "py_index (split_max CHR ''|'' 4 ?m) 2 \<noteq> Inr loc"
    unfolding ps len [symmetric] by (rule index_head_of_rest [OF nq hq])
  have "loc \<noteq> []" using assms(2) by auto
  with ix show ?thesis
    by (auto simp add: meta_get_location_def meta_get_text_def meta_parts_def bindE_def
        simp del: split_max.simps split: sum.splits)
qed

lemma key_merchant_broken:
  assumes "CHR ''|'' \<notin> set t" "CHR ''|'' \<notin> set loc" "CHR ''|'' \<in> set merch"
  shows "meta_get_merchant
           (Some (make_meta_str (Some t) (VFloat a) (Some loc) (Some merch) (Some stat)))
           \<noteq> Inr merch"
proof -
  let ?m = "make_meta_str (Some t) (VFloat a) (Some loc) (Some merch) (Some stat)"
  let ?r = "merch @ CHR ''|'' # stat"
  let ?q = "split_max CHR ''|'' (Suc 0) ?r"
  have ps: "split_max CHR ''|'' 4 ?m = [t, format_f 6 a, loc] @ ?q"
    unfolding key_shape four_Suc
    by (simp only: split_max_step [OF assms(1)] split_max_step [OF format_f_no_bar]
        split_max_step [OF assms(2)] append.simps)
  have h: "hd ?q = takeWhile (\<lambda>c. c \<noteq> CHR ''|'') merch"
    by (rule split_max_head(1) [OF assms(3)])
  have nq: "?q \<noteq> []" by simp
  have hq: "hd ?q \<noteq> merch"
    unfolding h by (rule split_max_head(2) [OF assms(3)])
  have len: "length [t, format_f 6 a, loc] = 3" by simp
  have ix: "py_index (split_max CHR ''|'' 4 ?m) 3 \<noteq> Inr merch"
    unfolding ps len [symmetric] by (rule index_head_of_rest [OF nq hq])
  have "merch \<noteq> []" using assms(3) by auto
  with ix show ?thesis
    by (auto simp add: meta_get_merchant_def meta_get_text_def meta_parts_def bindE_def
        simp del: split_max.simps split: sum.splits)
qed

lemma key_unpacked:
  fixes t loc merch stat :: string and a :: pyfloat
  assumes "CHR ''|'' \<notin> set t" "CHR ''|'' \<notin> set loc" "CHR ''|'' \<notin> set merch"
  defines "m \<equiv> Some (make_meta_str (Some t) (VFloat a) (Some loc) (Some merch) (Some stat))"
  shows "meta_get_time m = Inr t" "meta_get_amount m = Inr (round6 a)"
    "meta_get_location m = Inr loc" "meta_get_merchant m = Inr merch"
    "meta_get_status m = Inr stat"
proof -
  have ne: "make_meta_str (Some t) (VFloat a) (Some loc) (Some merch) (Some stat) \<noteq> []"
    by (simp add: key_shape)
  have ps: "meta_parts m = Inr [t, format_f 6 a, loc, merch, stat]"
    by (simp add: m_def meta_parts_def key_parts [OF assms(1,2,3)])
  show "meta_get_time m = Inr t"
    using ne by (simp add: meta_get_time_def ps bindE_def py_index_def) (simp add: m_def)
  show "meta_get_amount m = Inr (round6 a)"
    by (simp add: meta_get_amount_def ps bindE_def py_index_def py_float_format_f)
  show "meta_get_location m = Inr loc"
    by (simp add: meta_get_location_def meta_get_text_def ps bindE_def py_index_def)
  show "meta_get_merchant m = Inr merch"
    by (simp add: meta_get_merchant_def meta_get_text_def ps bindE_def py_index_def)
  show "meta_get_status m = Inr stat"
    by (simp add: meta_get_status_def meta_get_text_def ps bindE_def py_index_def)
qed

lemma round_half_even_of_int: "round_half_even (real_of_int k) = k"
  by (simp add: round_half_even_def)

lemma round6_exact:
  assumes "r * 10 ^ 6 = real_of_int k"
  shows "round6 (Fin r) = Fin r"
proof -
  have "\<bar>r\<bar> * 10 ^ 6 = real_of_int \<bar>k\<bar>"
    using assms by (simp add: abs_mult [symmetric] del: of_int_abs add: of_int_abs [symmetric])
  then have "round_half_even (\<bar>r\<bar> * 10 ^ 6) = \<bar>k\<bar>"
    by (simp only: round_half_even_of_int)
  moreover have "real_of_int \<bar>k\<bar> / 10 ^ 6 = \<bar>r\<bar>"
    using \<open>\<bar>r\<bar> * 10 ^ 6 = real_of_int \<bar>k\<bar>\<close> by (simp add: field_simps)
  ultimately show ?thesis
    by (simp add: round6_def Let_def)
qed

section \<open>Sliding windows\<close>

lemma le_div_iff_int:
  fixes h k x :: int
  assumes "0 < h"
  shows "(k \<le> x div h) = (k * h \<le> x)"
proof
  assume "k \<le> x div h"
  then have "k * h \<le> (x div h) * h"
    using assms by (simp add: mult_right_mono)
  also have "(x div h) * h \<le> x"
  proof -
    have "x = (x div h) * h + x mod h" by simp
    moreover have "0 \<le> x mod h" using assms by simp
    ultimately show ?thesis by linarith
  qed
  finally show "k * h \<le> x" .
next
  assume "k * h \<le> x"
  then have "(k * h) div h \<le> x div h"
    using assms by (rule zdiv_mono1)
  then show "k \<le> x div h"
    using assms by simp
qed

lemma div_less_iff_int:
  fixes h k x :: int
  assumes "0 < h"
  shows "(x div h < k) = (x < k * h)"
  using le_div_iff_int [OF assms, of k x] by auto

text \<open>A row is assigned to the windows of the grid that contain its time, and to no other.\<close>

lemma assign_windows_member:
  assumes "0 < hop"
  shows "((origin + k * hop, origin + k * hop + duration)
            \<in> set (assign_windows origin hop duration ts)) =
         (origin + k * hop \<le> ts \<and> ts < origin + k * hop + duration)"
proof -
  let ?f = "\<lambda>j. (origin + j * hop, origin + j * hop + duration)"
  let ?a = "(ts - origin - duration) div hop + 1"
  let ?b = "(ts - origin) div hop"
  have inj: "(?f k = ?f j) = (j = k)" for j
    using assms by auto
  have 1: "(?f k \<in> set (assign_windows origin hop duration ts)) = (?a \<le> k \<and> k \<le> ?b)"
    by (auto simp add: assign_windows_def image_iff inj)
  have "(?a \<le> k) = ((ts - origin - duration) div hop < k)"
    by auto
  also have "\<dots> = (ts - origin - duration < k * hop)"
    by (rule div_less_iff_int [OF assms])
  finally have a: "(?a \<le> k) = (ts < origin + k * hop + duration)"
    by auto
  have "(k \<le> ?b) = (k * hop \<le> ts - origin)"
    by (rule le_div_iff_int [OF assms])
  then have b: "(k \<le> ?b) = (origin + k * hop \<le> ts)"
    by auto
  show ?thesis
    unfolding 1 a b by (simp add: conj_commute)
qed

text \<open>
  When the duration is \<open>n\<close> hops, every time lies in exactly \<open>n\<close> windows: 60 for the
  60-minute window with 1-minute hop.
\<close>

lemma length_assign_windows:
  assumes "0 < hop"
  shows "length (assign_windows origin hop (int n * hop) ts) = n"
proof -
  have "(ts - origin - int n * hop) div hop = (ts - origin) div hop - int n"
  proof -
    have "ts - origin - int n * hop = (ts - origin) + (- int n) * hop"
      by simp
    then have "(ts - origin - int n * hop) div hop = ((ts - origin) + (- int n) * hop) div hop"
      by simp
    also have "\<dots> = (ts - origin) div hop + (- int n)"
      using assms by (simp only: div_mult_self1 [of hop "ts - origin" "- int n"])
    finally show ?thesis by simp
  qed
  then show ?thesis
    by (simp add: assign_windows_def)
qed

lemma length_assign_windows_1h:
  "length (assign_windows origin 60 3600 ts) = 60"
  using length_assign_windows [of 60 origin 60 ts] by simp

section \<open>The groups of the reduce\<close>

lemma group_rows_append:
  "group_rows u (xs @ ys) = group_rows u xs @ group_rows u ys"
  by (simp add: group_rows_def)

lemma group_rows_one_row:
  "group_rows u (map (\<lambda>w. (w, r)) ws) =
     (if t_user_id r = u then replicate (length ws) r else [])"
  by (simp add: group_rows_def comp_def map_replicate_const)

text \<open>
  The group of an account in the windowed table: each of its transactions, once for
  every window the transaction was assigned to.
\<close>

lemma group_rows_windowby:
  "group_rows u (windowby origin hop duration rows) =
     concat (map (\<lambda>r. replicate (length (assign_windows origin hop duration (t_parsed_time r))) r)
                 (filter (\<lambda>r. t_user_id r = u) rows))"
proof (induction rows)
  case Nil
  show ?case by (simp add: windowby_def group_rows_def)
next
  case (Cons r rows)
  have split: "windowby origin hop duration (r # rows) =
      map (\<lambda>w. (w, r)) (assign_windows origin hop duration (t_parsed_time r))
      @ windowby origin hop duration rows"
    by (simp add: windowby_def)
  show ?case
    unfolding split group_rows_append group_rows_one_row Cons.IH
    by simp
qed

lemma group_rows_1h:
  "group_rows u (windowby origin 60 3600 rows) =
     concat (map (replicate 60) (filter (\<lambda>r. t_user_id r = u) rows))"
  by (simp only: group_rows_windowby length_assign_windows_1h)

lemma reduce_group_key:
  "reduce_group u g = Some s \<Longrightarrow> w_user_id s = u"
  by (auto simp add: reduce_group_def split: list.splits)

lemma find_map_filter_key:
  assumes "\<And>x s. g x = Some s \<Longrightarrow> key s = x"
  shows "find (\<lambda>s. key s = k) (List.map_filter g ks) = (if k \<in> set ks then g k else None)"
proof (induction ks)
  case Nil
  show ?case by (simp add: map_filter_simps)
next
  case (Cons x ks)
  show ?case
  proof (cases "g x")
    case None
    with Cons show ?thesis
      by (auto simp add: map_filter_simps)
  next
    case (Some s)
    with assms have "key s = x" by simp
    with Some Cons show ?thesis
      by (auto simp add: map_filter_simps)
  qed
qed

lemma map_key_map_filter:
  assumes "\<And>x s. g x = Some s \<Longrightarrow> key s = x"
  shows "distinct ks \<Longrightarrow> distinct (map key (List.map_filter g ks))"
proof (induction ks)
  case Nil
  show ?case by (simp add: map_filter_simps)
next
  case (Cons x ks)
  have sub: "set (map key (List.map_filter g ks)) \<subseteq> set ks"
    using assms by (auto simp add: List.map_filter_def)
  show ?case
  proof (cases "g x")
    case None
    with Cons show ?thesis
      by (simp add: map_filter_simps)
  next
    case (Some s)
    with assms have "key s = x" by simp
    with Some Cons sub show ?thesis
      by (auto simp add: map_filter_simps)
  qed
qed

lemma filter_key_distinct:
  "distinct (map key xs) \<Longrightarrow>
     filter (\<lambda>x. key x = k) xs = (case find (\<lambda>x. key x = k) xs of None \<Rightarrow> [] | Some x \<Rightarrow> [x])"
proof (induction xs)
  case Nil
  show ?case by simp
next
  case (Cons x xs)
  show ?case
  proof (cases "key x = k")
    case True
    from Cons.prems have "key x \<notin> key ` set xs"
      by simp
    with True have "\<forall>y \<in> set xs. key y \<noteq> k"
      by (auto simp add: image_iff)
    then have "filter (\<lambda>y. key y = k) xs = []"
      by (simp add: filter_empty_conv)
    with True show ?thesis by simp
  next
    case False
    with Cons show ?thesis by simp
  qed
qed

lemma group_keys_member:
  "(u \<in> set (group_keys wrs)) = (group_rows u wrs \<noteq> [])"
  by (force simp add: group_keys_def group_rows_def filter_empty_conv case_prod_beta image_iff)

text \<open>The table holds one aggregate for an account: the reduce of its group.\<close>

lemma stats_of_sliding_stats:
  "stats_of u (sliding_stats origin hop duration rows) =
     reduce_group u (group_rows u (windowby origin hop duration rows))"
proof -
  let ?wrs = "windowby origin hop duration rows"
  let ?g = "\<lambda>u. reduce_group u (group_rows u ?wrs)"
  have key: "?g x = Some s \<Longrightarrow> w_user_id s = x" for x s
    by (rule reduce_group_key)
  have "stats_of u (sliding_stats origin hop duration rows) =
      find (\<lambda>s. w_user_id s = u) (List.map_filter ?g (group_keys ?wrs))"
    by (simp add: stats_of_def sliding_stats_def Let_def)
  also have "\<dots> = (if u \<in> set (group_keys ?wrs) then ?g u else None)"
    using key by (rule find_map_filter_key)
  also have "\<dots> = reduce_group u (group_rows u ?wrs)"
    by (simp add: group_keys_member reduce_group_def)
  finally show ?thesis .
qed

lemma aggregates_of_account:
  "filter (\<lambda>s. w_user_id s = u) (sliding_stats origin hop duration rows) =
     (case stats_of u (sliding_stats origin hop duration rows) of
        None \<Rightarrow> [] | Some s \<Rightarrow> [s])"
proof -
  let ?wrs = "windowby origin hop duration rows"
  let ?g = "\<lambda>u. reduce_group u (group_rows u ?wrs)"
  have key: "?g x = Some s \<Longrightarrow> w_user_id s = x" for x s
    by (rule reduce_group_key)
  have "distinct (group_keys ?wrs)"
    by (simp add: group_keys_def)
  with key have "distinct (map w_user_id (List.map_filter ?g (group_keys ?wrs)))"
    by (rule map_key_map_filter)
  then have "distinct (map w_user_id (sliding_stats origin hop duration rows))"
    by (simp add: sliding_stats_def Let_def)
  then show ?thesis
    unfolding stats_of_def by (rule filter_key_distinct)
qed

lemma foldl_max_is_Max:
  fixes x :: "'a::linorder"
  shows "foldl max x xs = Max (set (x # xs))"
proof -
  have "(\<lambda>b a. max a b) = (max :: 'a \<Rightarrow> 'a \<Rightarrow> 'a)"
    by (intro ext) (rule max.commute)
  then show ?thesis
    by (simp only: Max.set_eq_fold foldl_conv_fold)
qed

lemma reduce_group_nonempty:
  assumes "g \<noteq> []"
  shows "reduce_group u g =
     Some \<lparr>w_user_id = u, w_velocity_sum_1h = reducers_sum (map t_amount_f g),
           w_velocity_count_1h = length g, w_latest_meta = Max (t_meta ` set g)\<rparr>"
proof (cases g)
  case Nil
  with assms show ?thesis by simp
next
  case (Cons r rs)
  have "foldl max (t_meta r) (map t_meta rs) = Max (set (t_meta r # map t_meta rs))"
    by (rule foldl_max_is_Max)
  then show ?thesis
    by (simp add: reduce_group_def Cons)
qed

lemma foldl_pf_add_replicate:
  "foldl pf_add (Fin a) (replicate n (Fin b)) = Fin (a + real n * b)"
  by (induction n arbitrary: a) (simp_all add: algebra_simps)

lemma foldl_pf_add_replicated:
  "foldl pf_add (Fin a) (map Fin (concat (map (replicate n) xs))) =
     Fin (a + real n * sum_list xs)"
proof (induction xs arbitrary: a)
  case Nil
  show ?case by simp
next
  case (Cons x xs)
  have "map Fin (replicate n x) = replicate n (Fin x)"
    by simp
  then show ?case
    by (simp add: foldl_pf_add_replicate Cons.IH algebra_simps)
qed

text \<open>
  The aggregate of an account in \<^verbatim>\<open>window_stats\<close>, for finite amounts: every transaction
  of the account enters the sum and the count 60 times, whatever its time, and the
  latest key is the greatest key among all the transactions of the account.
\<close>

lemma window_stats_of_account:
  assumes "filter (\<lambda>r. t_user_id r = u) rows = rs"
    and "rs \<noteq> []"
    and "map t_amount_f rs = map Fin xs"
  shows "stats_of u (window_stats origin rows) =
     Some \<lparr>w_user_id = u, w_velocity_sum_1h = Fin (60 * sum_list xs),
           w_velocity_count_1h = 60 * length rs, w_latest_meta = Max (t_meta ` set rs)\<rparr>"
proof -
  let ?g = "concat (map (replicate 60) rs)"
  have g: "group_rows u (windowby origin 60 3600 rows) = ?g"
    by (simp only: group_rows_1h assms(1))
  have ne: "?g \<noteq> []"
    using assms(2) by (cases rs) simp_all
  have "map t_amount_f ?g = concat (map (replicate 60) (map t_amount_f rs))"
    by (simp add: map_concat comp_def)
  also have "\<dots> = map Fin (concat (map (replicate 60) xs))"
    by (simp add: assms(3) map_concat comp_def)
  finally have "reducers_sum (map t_amount_f ?g) = Fin (60 * sum_list xs)"
    by (simp add: reducers_sum_def foldl_pf_add_replicated)
  moreover have "length ?g = 60 * length rs"
    by (simp add: length_concat comp_def sum_list_triv)
  moreover have "set ?g = set rs"
    by auto
  ultimately show ?thesis
    unfolding window_stats_def stats_of_sliding_stats g
    by (simp add: reduce_group_nonempty [OF ne])
qed


lemmas rule_eval = rule_based_explanation_def bindE_def risk_flagged_def truthy_def str_or_def
  py_str_def amount_reason_def velocity_reason_def watchlist_reason_def merchant_reason_def
  location_reason_def fallback_reason_def analysis_col_def

section \<open>Amount coercion\<close>

text \<open>
  C7. \<^verbatim>\<open>safe_float\<close> returns a float for every input and never raises: a null input and
  every input whose trimmed text does not parse as a float give exactly 0.0, and a text
  that parses gives the parsed value.
\<close>

theorem safe_float_never_fails:
  "(\<exists>v. safe_float x = Inr v)
   \<and> safe_float VNone = Inr (Fin 0)
   \<and> (py_float (strip s) = Inl e \<longrightarrow> safe_float (VStr s) = Inr (Fin 0))
   \<and> (py_float (strip s) = Inr f \<longrightarrow> safe_float (VStr s) = Inr f)"
  by (simp add: safe_float_def safe_float_body_def split: sum.splits pyval.splits)

theorem safe_float_never_fails_witness:
  "(\<exists>v. safe_float (VStr ''12x'') = Inr v)
   \<and> py_float (strip ''abc'') = Inl ValueError
   \<and> safe_float (VStr ''abc'') = Inr (Fin 0)
   \<and> py_float (strip '' 2500.50 '') = Inr (Fin (5001 / 2))
   \<and> safe_float (VStr '' 2500.50 '') = Inr (Fin (5001 / 2))"
proof -
  have a: "py_float (strip ''abc'') = Inl ValueError"
    by (simp add: parse_eval)
  have b: "py_float (strip '' 2500.50 '') = Inr (Fin (5001 / 2))"
    by (simp add: parse_eval)
  show ?thesis
    using a b
      safe_float_never_fails [of "VStr ''12x''" "''abc''" ValueError "Fin (5001 / 2)"]
      safe_float_never_fails [of "VStr ''12x''" "'' 2500.50 ''" ValueError "Fin (5001 / 2)"]
    by simp
qed

section \<open>Alert trigger and verdict\<close>

text \<open>
  C1. The claim: an alert fires if and only if the amount is above 2000, or the velocity
  is above 5000, or the risk level is present and not semantically empty. On the row
  \<open>listed_quiet_row\<close> (risk level text \<^verbatim>\<open>None\<close>, amount and velocity 100) none of the
  three conditions holds, and the filter of the code passes the row all the same.
\<close>

theorem alerts_trigger_passes_empty_risk:
  "alerts_trigger listed_quiet_row
   \<and> \<not> (pf_gt (amount_f listed_quiet_row) 2000
          \<or> pf_gt (velocity_avg_f listed_quiet_row) 5000
          \<or> risk_flagged (watchlist_risk listed_quiet_row))"
  by (simp add: alerts_trigger_def listed_quiet_row_def risk_flagged_def)

text \<open>
  C2. The claim: every record forwarded to the output has the verdict SUSPICIOUS. The
  row \<open>listed_quiet_row\<close> passes the filter, is written to the output, and its analysis
  string starts with \<^verbatim>\<open>verdict=OK\<close>.
\<close>

theorem forwarded_row_with_verdict_ok:
  "final_results [listed_quiet_row] =
     [Inr [(''time'', CStr ''2024-01-01T10:00:00''),
           (''user_id'', CStr ''u7''),
           (''amount'', CFloat (Fin 100)),
           (''velocity_avg_1h'', CFloat (Fin 100)),
           (''watchlist_risk'', COptStr (Some ''None'')),
           (''analysis'', CStr ''verdict=OK || Merchant: Amazon Location: Delhi'')]]"
  by (simp add: final_results_def final_results_row_def alerts_trigger_def
      listed_quiet_row_def rule_eval)

section \<open>Explanation and output format\<close>



section \<open>Null tolerance of the rule engine\<close>

text \<open>
  C9, as claimed: the explanation function returns a string for every input, also when
  the amount is null. It does not: a null amount raises \<^verbatim>\<open>TypeError\<close> at the comparison
  \<^verbatim>\<open>amount > 2000\<close>.
\<close>

theorem rule_engine_null_amount_raises:
  "rule_based_explanation None (Some (Fin 100)) (Some 1) None None None None = Inl TypeError"
  by (simp add: rule_based_explanation_def)

text \<open>
  C9, amended: when amount and velocity are floats (the pipeline passes the results of
  \<^verbatim>\<open>safe_float\<close>, which turns a missing value into 0.0) and the count is an integer
  whenever the velocity is above 5000 (it is not read otherwise), the function returns a
  string without raising, for every risk, notes, merchant and location, null or not. A
  null text field is treated as the empty string: the result is the one for the empty
  string in its place. In the returned string a null risk gives no watchlist fragment,
  null notes are printed as \<^verbatim>\<open>N/A\<close>, and a null merchant or location gives no
  fragment.
\<close>

theorem rule_engine_tolerates_null_text:
  "(cnt \<noteq> None \<or> \<not> pf_gt v 5000 \<longrightarrow>
      (\<exists>s. rule_based_explanation (Some a) (Some v) cnt risk notes merch loc = Inr s))
   \<and> (\<not> pf_gt v 5000 \<longrightarrow>
        rule_based_explanation (Some a) (Some v) None risk notes merch loc =
          rule_based_explanation (Some a) (Some v) (Some 0) risk notes merch loc)
   \<and> rule_based_explanation (Some a) (Some v) cnt risk notes merch loc =
       rule_based_explanation (Some a) (Some v) cnt (Some (str_or risk ''''))
         (Some (str_or notes '''')) (Some (str_or merch '''')) (Some (str_or loc ''''))
   \<and> rule_based_explanation (Some a) (Some v) (Some n) risk notes merch loc =
       (let flagged = (case risk of None \<Rightarrow> False | Some r \<Rightarrow> r \<noteq> '''' \<and> r \<noteq> ''None'');
            fragments =
              (if pf_gt a 2000 then [amount_reason a] else [])
              @ (if pf_gt v 5000 then [velocity_reason v n] else [])
              @ (case risk of
                   None \<Rightarrow> []
                 | Some r \<Rightarrow>
                     if r = '''' \<or> r = ''None'' then []
                     else [''Watchlist flag: '' @ r @ ''. Notes: ''
                           @ (case notes of
                                None \<Rightarrow> ''N/A''
                              | Some t \<Rightarrow> if t = '''' then ''N/A'' else t)])
              @ (case merch of
                   None \<Rightarrow> []
                 | Some m \<Rightarrow> if m = '''' then [] else [''Merchant: '' @ m])
              @ (case loc of
                   None \<Rightarrow> []
                 | Some l \<Rightarrow> if l = '''' then [] else [''Location: '' @ l])
        in Inr (''verdict=''
                @ (if pf_gt a 2000 \<or> pf_gt v 5000 \<or> flagged then ''SUSPICIOUS'' else ''OK'')
                @ '' || ''
                @ join_sp (if fragments = [] then [fallback_reason] else fragments)))"
proof (intro conjI impI)
  assume "cnt \<noteq> None \<or> \<not> pf_gt v 5000"
  then show "\<exists>s. rule_based_explanation (Some a) (Some v) cnt risk notes merch loc = Inr s"
    by (auto simp add: rule_based_explanation_def bindE_def Let_def split: option.splits)
next
  assume "\<not> pf_gt v 5000"
  then show "rule_based_explanation (Some a) (Some v) None risk notes merch loc =
          rule_based_explanation (Some a) (Some v) (Some 0) risk notes merch loc"
    by (simp add: rule_based_explanation_def bindE_def Let_def)
next
  have r: "risk_flagged (Some (str_or risk '''')) = risk_flagged risk"
    by (simp add: risk_flagged_def str_or_def split: option.splits)
  have w: "risk_flagged risk \<Longrightarrow>
      watchlist_reason (Some (str_or risk '''')) (Some (str_or notes '''')) =
        watchlist_reason risk notes"
    by (auto simp add: risk_flagged_def watchlist_reason_def str_or_def py_str_def
        split: option.splits)
  have t: "truthy (Some (str_or x '''')) = truthy x" for x
    by (simp add: truthy_def str_or_def split: option.splits)
  have m: "truthy merch \<Longrightarrow> merchant_reason (Some (str_or merch '''')) = merchant_reason merch"
    by (auto simp add: truthy_def merchant_reason_def str_or_def py_str_def split: option.splits)
  have l: "truthy loc \<Longrightarrow> location_reason (Some (str_or loc '''')) = location_reason loc"
    by (auto simp add: truthy_def location_reason_def str_or_def py_str_def split: option.splits)
  show "rule_based_explanation (Some a) (Some v) cnt risk notes merch loc =
       rule_based_explanation (Some a) (Some v) cnt (Some (str_or risk ''''))
         (Some (str_or notes '''')) (Some (str_or merch '''')) (Some (str_or loc ''''))"
    unfolding rule_based_explanation_def Let_def r t
    by (simp add: w m l cong: if_cong)
next
  have r: "risk_flagged risk =
      (case risk of None \<Rightarrow> False | Some r \<Rightarrow> r \<noteq> '''' \<and> r \<noteq> ''None'')"
    by (simp add: risk_flagged_def split: option.splits)
  have w: "(if risk_flagged risk then [watchlist_reason risk notes] else []) =
      (case risk of
         None \<Rightarrow> []
       | Some r \<Rightarrow>
           if r = '''' \<or> r = ''None'' then []
           else [''Watchlist flag: '' @ r @ ''. Notes: ''
                 @ (case notes of
                      None \<Rightarrow> ''N/A''
                    | Some t \<Rightarrow> if t = '''' then ''N/A'' else t)])"
    by (simp add: risk_flagged_def watchlist_reason_def str_or_def py_str_def
        split: option.splits)
  have m: "(if truthy merch then [merchant_reason merch] else []) =
      (case merch of None \<Rightarrow> [] | Some m \<Rightarrow> if m = '''' then [] else [''Merchant: '' @ m])"
    by (simp add: truthy_def merchant_reason_def py_str_def split: option.splits)
  have l: "(if truthy loc then [location_reason loc] else []) =
      (case loc of None \<Rightarrow> [] | Some l \<Rightarrow> if l = '''' then [] else [''Location: '' @ l])"
    by (simp add: truthy_def location_reason_def py_str_def split: option.splits)
  have "rule_based_explanation (Some a) (Some v) (Some n) risk notes merch loc =
      Inr (''verdict=''
           @ (if pf_gt a 2000 \<or> pf_gt v 5000 \<or> risk_flagged risk then ''SUSPICIOUS'' else ''OK'')
           @ '' || ''
           @ join_sp
               (if (if pf_gt a 2000 then [amount_reason a] else [])
                   @ (if pf_gt v 5000 then [velocity_reason v n] else [])
                   @ (if risk_flagged risk then [watchlist_reason risk notes] else [])
                   @ (if truthy merch then [merchant_reason merch] else [])
                   @ (if truthy loc then [location_reason loc] else []) = []
                then [fallback_reason]
                else (if pf_gt a 2000 then [amount_reason a] else [])
                   @ (if pf_gt v 5000 then [velocity_reason v n] else [])
                   @ (if risk_flagged risk then [watchlist_reason risk notes] else [])
                   @ (if truthy merch then [merchant_reason merch] else [])
                   @ (if truthy loc then [location_reason loc] else [])))"
    by (simp add: rule_based_explanation_def bindE_def Let_def)
  then show "rule_based_explanation (Some a) (Some v) (Some n) risk notes merch loc =
       (let flagged = (case risk of None \<Rightarrow> False | Some r \<Rightarrow> r \<noteq> '''' \<and> r \<noteq> ''None'');
            fragments =
              (if pf_gt a 2000 then [amount_reason a] else [])
              @ (if pf_gt v 5000 then [velocity_reason v n] else [])
              @ (case risk of
                   None \<Rightarrow> []
                 | Some r \<Rightarrow>
                     if r = '''' \<or> r = ''None'' then []
                     else [''Watchlist flag: '' @ r @ ''. Notes: ''
                           @ (case notes of
                                None \<Rightarrow> ''N/A''
                              | Some t \<Rightarrow> if t = '''' then ''N/A'' else t)])
              @ (case merch of
                   None \<Rightarrow> []
                 | Some m \<Rightarrow> if m = '''' then [] else [''Merchant: '' @ m])
              @ (case loc of
                   None \<Rightarrow> []
                 | Some l \<Rightarrow> if l = '''' then [] else [''Location: '' @ l])
        in Inr (''verdict=''
                @ (if pf_gt a 2000 \<or> pf_gt v 5000 \<or> flagged then ''SUSPICIOUS'' else ''OK'')
                @ '' || ''
                @ join_sp (if fragments = [] then [fallback_reason] else fragments)))"
    apply (simp only: Let_def w m l)
    apply (simp only: r)
    done
qed

theorem rule_engine_tolerates_null_text_witness:
  "\<not> pf_gt (Fin 0) 5000
   \<and> rule_based_explanation (Some (Fin 0)) (Some (Fin 0)) None None None None None =
       Inr ''verdict=OK || No suspicious indicators.''
   \<and> rule_based_explanation (Some (Fin 2500)) (Some (Fin 6000)) (Some 3) (Some ''HIGH'') None
       None (Some ''Delhi'') =
       Inr (''verdict=SUSPICIOUS || Single transaction $2500.00 exceeded threshold. ''
            @ ''1h velocity $6000.00 exceeded threshold across 3 txns. ''
            @ ''Watchlist flag: HIGH. Notes: N/A Location: Delhi'')
   \<and> rule_based_explanation (Some (Fin 2500)) (Some (Fin 0)) (Some 1) None None None None =
       Inr ''verdict=SUSPICIOUS || Single transaction $2500.00 exceeded threshold.''"
  using
    rule_engine_tolerates_null_text [of None "Fin 0" "Fin 0" None None None None 0]
    rule_engine_tolerates_null_text
      [of "Some 3" "Fin 6000" "Fin 2500" "Some ''HIGH''" None None "Some ''Delhi''" 3]
    rule_engine_tolerates_null_text [of "Some 1" "Fin 0" "Fin 2500" None None None None 1]
  by (simp add: rule_eval fmt_eval)

section \<open>Round trip of the composite key\<close>

text \<open>
  C10, as claimed: a field that contains the delimiter breaks the round trip. For the
  status it does not: \<^verbatim>\<open>split("|", 4)\<close> splits at most four times, so the fifth part keeps
  every further delimiter, and a status \<^verbatim>\<open>a|b\<close> is unpacked unchanged together with the
  other four fields.
\<close>

theorem status_with_delimiter_round_trips:
  "unpacked_fields (tx_key ''2024-01-01T10:00:00'' (Fin (25 / 2)) ''Delhi'' ''Amazon'' ''a|b'') =
     (Inr ''2024-01-01T10:00:00'', Inr (Fin (25 / 2)), Inr ''Delhi'', Inr ''Amazon'', Inr ''a|b'')"
proof -
  have "(25 / 2 :: real) * 10 ^ 6 = real_of_int 12500000"
    by simp
  then have "round6 (Fin (25 / 2)) = Fin (25 / 2)"
    by (rule round6_exact)
  then show ?thesis
    unfolding unpacked_fields_def tx_key_def
    by (simp add: key_unpacked)
qed

text \<open>
  C10, amended: when the timestamp, the location and the merchant contain no delimiter
  (the status may), unpacking the key of a transaction returns the timestamp, location,
  merchant and status unchanged and the amount rounded to six decimal places; an amount
  that has at most six decimal places is returned unchanged. A delimiter in the
  timestamp, the location or the merchant breaks the round trip of the text fields.
\<close>

theorem composite_key_round_trip:
  "(CHR ''|'' \<notin> set t \<and> CHR ''|'' \<notin> set loc \<and> CHR ''|'' \<notin> set merch \<longrightarrow>
      unpacked_fields (tx_key t a loc merch stat) =
        (Inr t, Inr (round6 a), Inr loc, Inr merch, Inr stat))
   \<and> (CHR ''|'' \<in> set t \<or> CHR ''|'' \<in> set loc \<or> CHR ''|'' \<in> set merch \<longrightarrow>
        (meta_get_time (tx_key t a loc merch stat),
         meta_get_location (tx_key t a loc merch stat),
         meta_get_merchant (tx_key t a loc merch stat)) \<noteq> (Inr t, Inr loc, Inr merch))
   \<and> (r * 10 ^ 6 = real_of_int k \<longrightarrow> round6 (Fin r) = Fin r)"
proof (intro conjI impI)
  assume "CHR ''|'' \<notin> set t \<and> CHR ''|'' \<notin> set loc \<and> CHR ''|'' \<notin> set merch"
  then show "unpacked_fields (tx_key t a loc merch stat) =
        (Inr t, Inr (round6 a), Inr loc, Inr merch, Inr stat)"
    unfolding unpacked_fields_def tx_key_def by (simp add: key_unpacked)
next
  assume bar: "CHR ''|'' \<in> set t \<or> CHR ''|'' \<in> set loc \<or> CHR ''|'' \<in> set merch"
  show "(meta_get_time (tx_key t a loc merch stat),
         meta_get_location (tx_key t a loc merch stat),
         meta_get_merchant (tx_key t a loc merch stat)) \<noteq> (Inr t, Inr loc, Inr merch)"
  proof (cases "CHR ''|'' \<in> set t")
    case True
    then show ?thesis
      unfolding tx_key_def using key_time_broken by simp
  next
    case nt: False
    show ?thesis
    proof (cases "CHR ''|'' \<in> set loc")
      case True
      with nt show ?thesis
        unfolding tx_key_def using key_location_broken by simp
    next
      case False
      with nt bar have "CHR ''|'' \<in> set merch" by simp
      with nt False show ?thesis
        unfolding tx_key_def using key_merchant_broken by simp
    qed
  qed
next
  assume "r * 10 ^ 6 = real_of_int k"
  then show "round6 (Fin r) = Fin r" by (rule round6_exact)
qed

theorem composite_key_round_trip_witness:
  "unpacked_fields (tx_key ''2024-01-01T10:00:00'' (Fin (1 / 128)) ''Delhi'' ''Amazon'' ''ok'') =
     (Inr ''2024-01-01T10:00:00'', Inr (Fin (1953 / 250000)), Inr ''Delhi'', Inr ''Amazon'',
      Inr ''ok'')
   \<and> (meta_get_time (tx_key ''a|b'' (Fin 3) ''Delhi'' ''Amazon'' ''ok''),
       meta_get_location (tx_key ''a|b'' (Fin 3) ''Delhi'' ''Amazon'' ''ok''),
       meta_get_merchant (tx_key ''a|b'' (Fin 3) ''Delhi'' ''Amazon'' ''ok''))
      \<noteq> (Inr ''a|b'', Inr ''Delhi'', Inr ''Amazon'')
   \<and> round6 (Fin (999 / 1000)) = Fin (999 / 1000)"
proof -
  have r: "round6 (Fin (1 / 128)) = Fin (1953 / 250000)"
    by (simp add: round6_def round_half_even_def)
  have e: "(999 / 1000 :: real) * 10 ^ 6 = real_of_int 999000"
    by simp
  show ?thesis
    using
      composite_key_round_trip
        [of "''2024-01-01T10:00:00''" "''Delhi''" "''Amazon''" "Fin (1 / 128)" "''ok''"
            "999 / 1000" 999000]
      composite_key_round_trip
        [of "''a|b''" "''Delhi''" "''Amazon''" "Fin 3" "''ok''" "999 / 1000" 999000]
      r e
    by simp
qed

section \<open>The average over the window\<close>

lemma shifted_count_pos: "0 < real n + 1 / 10 ^ 9"
  by (simp add: add_nonneg_pos)

lemma velocity_avg_returns: "\<exists>v. velocity_avg x n = Inr v"
  using shifted_count_pos [of n] by (simp add: velocity_avg_def)

lemma shifted_count_distortion:
  assumes "0 < n"
  shows "\<bar>s / (real n + 1 / 10 ^ 9) - s / real n\<bar> \<le> \<bar>s / real n\<bar> / 10 ^ 9"
proof -
  define e :: real where "e = 1 / 10 ^ 9"
  have e: "0 < e" by (simp add: e_def)
  have n: "1 \<le> real n" using assms by simp
  have "s / (real n + e) - s / real n = - (s / real n) * (e / (real n + e))"
    using n e by (simp add: field_simps)
  then have eq: "\<bar>s / (real n + e) - s / real n\<bar> = \<bar>s / real n\<bar> * (e / (real n + e))"
    using n e by (simp add: abs_mult)
  have "e / (real n + e) \<le> e / 1"
    using n e by (intro divide_left_mono) simp_all
  then have le: "e / (real n + e) \<le> e" by simp
  have "\<bar>s / real n\<bar> * (e / (real n + e)) \<le> \<bar>s / real n\<bar> * e"
    using le by (rule mult_left_mono) simp
  with eq have "\<bar>s / (real n + e) - s / real n\<bar> \<le> \<bar>s / real n\<bar> * e"
    by (simp only:)
  also have "\<bar>s / real n\<bar> * e = \<bar>s / real n\<bar> / 10 ^ 9"
    by (simp add: e_def)
  finally show ?thesis unfolding e_def .
qed

text \<open>
  C5, as claimed: the average is the sum divided by \<open>max(count, epsilon)\<close>, which for a
  count of 1 is the sum itself. The code divides by \<open>count + 1e-9\<close>: for a sum of 3000
  and a count of 1 the two differ.
\<close>

theorem average_is_not_sum_over_max:
  "velocity_avg (Fin 3000) 1 \<noteq> Inr (Fin (3000 / max 1 (1 / 10 ^ 9)))"
  by (simp add: velocity_avg_def)

text \<open>
  C5, amended: for every window the average is the sum divided by \<open>count + 1e-9\<close>. The
  divisor is positive, so no division by zero occurs for any sum and count; for a count
  of 0 and a sum of 0 the average is 0.0; for a positive count the average differs from
  sum / count by at most the fraction 1e-9 of it.
\<close>

theorem velocity_avg_shifted_count:
  "velocity_avg (Fin s) n = Inr (Fin (s / (real n + 1 / 10 ^ 9)))
   \<and> (\<exists>v. velocity_avg x n = Inr v)
   \<and> velocity_avg (Fin 0) 0 = Inr (Fin 0)
   \<and> (0 < n \<longrightarrow> \<bar>s / (real n + 1 / 10 ^ 9) - s / real n\<bar> \<le> \<bar>s / real n\<bar> / 10 ^ 9)"
proof (intro conjI impI)
  show "velocity_avg (Fin s) n = Inr (Fin (s / (real n + 1 / 10 ^ 9)))"
    using shifted_count_pos [of n] by (simp add: velocity_avg_def)
  show "\<exists>v. velocity_avg x n = Inr v"
    by (rule velocity_avg_returns)
  show "velocity_avg (Fin 0) 0 = Inr (Fin 0)"
    by (simp add: velocity_avg_def)
  show "\<bar>s / (real n + 1 / 10 ^ 9) - s / real n\<bar> \<le> \<bar>s / real n\<bar> / 10 ^ 9" if "0 < n"
    using that by (rule shifted_count_distortion)
qed

theorem velocity_avg_shifted_count_witness:
  "velocity_avg (Fin 3500) 2 = Inr (Fin (3500000000000 / 2000000001))
   \<and> \<bar>3500 / (real 2 + 1 / 10 ^ 9) - 3500 / real 2\<bar> \<le> \<bar>3500 / real 2\<bar> / 10 ^ 9"
  using velocity_avg_shifted_count [of 3500 2 NaN]
  by simp

section \<open>Totality of the join\<close>

lemma split_max_nonempty: "split_max sep n s \<noteq> []"
  by (cases n) simp_all

lemma meta_get_time_returns: "\<exists>v. meta_get_time (Some m) = Inr v"
proof -
  have "0 < length (split_max CHR ''|'' 4 m)"
    using split_max_nonempty [of "CHR ''|''" 4 m] by (simp del: split_max.simps)
  then show ?thesis
    by (simp add: meta_get_time_def meta_parts_def bindE_def py_index_def del: split_max.simps)
qed

lemma meta_get_amount_returns: "\<exists>v. meta_get_amount m = Inr v"
  by (simp add: meta_get_amount_def split: sum.splits)

lemma meta_get_text_returns: "\<exists>v. meta_get_text i m = Inr v"
  by (simp add: meta_get_text_def split: sum.splits)

lemma joined_row_returns:
  "\<exists>r. joined_row s e = Inr r
       \<and> user_id r = w_user_id s
       \<and> watchlist_risk r = map_option risk_level e
       \<and> watchlist_notes r = map_option entry_notes e"
proof -
  obtain avg where 1: "velocity_avg (w_velocity_sum_1h s) (w_velocity_count_1h s) = Inr avg"
    using velocity_avg_returns by blast
  obtain lt where 2: "meta_get_time (Some (w_latest_meta s)) = Inr lt"
    using meta_get_time_returns by blast
  obtain am where 3: "meta_get_amount (Some (w_latest_meta s)) = Inr am"
    using meta_get_amount_returns by blast
  obtain lo where 4: "meta_get_location (Some (w_latest_meta s)) = Inr lo"
    unfolding meta_get_location_def using meta_get_text_returns by blast
  obtain me where 5: "meta_get_merchant (Some (w_latest_meta s)) = Inr me"
    unfolding meta_get_merchant_def using meta_get_text_returns by blast
  obtain st where 6: "meta_get_status (Some (w_latest_meta s)) = Inr st"
    unfolding meta_get_status_def using meta_get_text_returns by blast
  show ?thesis
    by (simp add: joined_row_def bindE_def 1 2 3 4 5 6)
qed

lemma unique_key_matches:
  "distinct (map f xs) \<Longrightarrow> length (filter (\<lambda>x. f x = k) xs) \<le> 1"
proof (induction xs)
  case Nil
  then show ?case by simp
next
  case (Cons x xs)
  show ?case
  proof (cases "f x = k")
    case True
    with Cons.prems have "\<And>y. y \<in> set xs \<Longrightarrow> f y \<noteq> k"
      by (auto simp add: image_iff)
    then have "filter (\<lambda>x. f x = k) xs = []"
      by (simp add: filter_empty_conv)
    with True show ?thesis by simp
  next
    case False
    with Cons show ?thesis by simp
  qed
qed

text \<open>
  C8, as claimed: every window aggregate gives exactly one joined record. With two
  watchlist rows for the same entity the left join gives two records for the one
  aggregate of that account.
\<close>

theorem duplicate_watchlist_rows_give_two_records:
  "map (map_sum id watchlist_risk)
     (full_context
        [\<lparr>w_user_id = ''u101'', w_velocity_sum_1h = Fin 3500,
          w_velocity_count_1h = 2,
          w_latest_meta = ''2024-01-01T10:30:00|3000.000000|Delhi|Amazon|ok''\<rparr>]
        [\<lparr>entity_id = ''u101'', risk_level = ''HIGH'', entry_notes = ''fraud''\<rparr>,
         \<lparr>entity_id = ''u101'', risk_level = ''LOW'', entry_notes = ''old entry''\<rparr>])
   = [Inr (Some ''HIGH''), Inr (Some ''LOW'')]"
proof -
  let ?s = "\<lparr>w_user_id = ''u101'', w_velocity_sum_1h = Fin 3500,
          w_velocity_count_1h = 2,
          w_latest_meta = ''2024-01-01T10:30:00|3000.000000|Delhi|Amazon|ok''\<rparr>"
  let ?e1 = "\<lparr>entity_id = ''u101'', risk_level = ''HIGH'', entry_notes = ''fraud''\<rparr>"
  let ?e2 = "\<lparr>entity_id = ''u101'', risk_level = ''LOW'', entry_notes = ''old entry''\<rparr>"
  obtain r1 where 1: "joined_row ?s (Some ?e1) = Inr r1"
    "watchlist_risk r1 = map_option risk_level (Some ?e1)"
    using joined_row_returns [of ?s "Some ?e1"] by blast
  obtain r2 where 2: "joined_row ?s (Some ?e2) = Inr r2"
    "watchlist_risk r2 = map_option risk_level (Some ?e2)"
    using joined_row_returns [of ?s "Some ?e2"] by blast
  show ?thesis
    by (simp add: full_context_def join_one_def matches_def 1 2)
qed

text \<open>
  C8, amended: the left join drops no window aggregate. An aggregate whose account has
  no watchlist row gives exactly one joined record, with null risk level and notes; an
  aggregate with exactly one matching row gives exactly one record, carrying that row's
  risk level and notes; in general there is one record per matching row, so exactly one
  whenever the entity ids of the watchlist are distinct. Building a joined record never
  raises.
\<close>

theorem join_totality:
  "(matches s ws = [] \<longrightarrow> join_one s ws = [joined_row s None])
   \<and> (matches s ws = [e] \<longrightarrow> join_one s ws = [joined_row s (Some e)])
   \<and> length (join_one s ws) = max 1 (length (matches s ws))
   \<and> (distinct (map entity_id ws) \<longrightarrow> length (join_one s ws) = 1)
   \<and> (\<exists>r. joined_row s x = Inr r
          \<and> user_id r = w_user_id s
          \<and> watchlist_risk r = map_option risk_level x
          \<and> watchlist_notes r = map_option entry_notes x)
   \<and> length ss \<le> length (full_context ss ws)"
proof (intro conjI impI)
  show "join_one s ws = [joined_row s None]" if "matches s ws = []"
    using that by (simp add: join_one_def)
  show "join_one s ws = [joined_row s (Some e)]" if "matches s ws = [e]"
    using that by (simp add: join_one_def)
  show len: "length (join_one s ws) = max 1 (length (matches s ws))"
    by (cases "matches s ws") (simp_all add: join_one_def)
  show "length (join_one s ws) = 1" if "distinct (map entity_id ws)"
  proof -
    have "length (matches s ws) \<le> 1"
      unfolding matches_def using that by (rule unique_key_matches)
    with len show ?thesis by simp
  qed
  show "\<exists>r. joined_row s x = Inr r
          \<and> user_id r = w_user_id s
          \<and> watchlist_risk r = map_option risk_level x
          \<and> watchlist_notes r = map_option entry_notes x"
    by (rule joined_row_returns)
  have one: "1 \<le> length (join_one s' ws)" for s'
    by (cases "matches s' ws") (simp_all add: join_one_def)
  show "length ss \<le> length (full_context ss ws)"
  proof (induction ss)
    case Nil
    then show ?case by (simp add: full_context_def)
  next
    case (Cons a ss)
    with one [of a] show ?case by (simp add: full_context_def)
  qed
qed

theorem join_totality_witness:
  "matches \<lparr>w_user_id = ''u101'', w_velocity_sum_1h = Fin 3500,
            w_velocity_count_1h = 2,
            w_latest_meta = ''2024-01-01T10:30:00|3000.000000|Delhi|Amazon|ok''\<rparr>
     [\<lparr>entity_id = ''u7'', risk_level = ''HIGH'', entry_notes = ''fraud''\<rparr>] = []
   \<and> distinct (map entity_id [\<lparr>entity_id = ''u7'', risk_level = ''HIGH'', entry_notes = ''fraud''\<rparr>])
   \<and> map (map_sum id watchlist_risk)
       (join_one \<lparr>w_user_id = ''u101'', w_velocity_sum_1h = Fin 3500,
                  w_velocity_count_1h = 2,
                  w_latest_meta = ''2024-01-01T10:30:00|3000.000000|Delhi|Amazon|ok''\<rparr>
          [\<lparr>entity_id = ''u7'', risk_level = ''HIGH'', entry_notes = ''fraud''\<rparr>])
     = [Inr None]
   \<and> matches \<lparr>w_user_id = ''u7'', w_velocity_sum_1h = Fin 10,
              w_velocity_count_1h = 1,
              w_latest_meta = ''2024-01-01T10:30:00|10.000000|Delhi|Amazon|ok''\<rparr>
       [\<lparr>entity_id = ''u7'', risk_level = ''HIGH'', entry_notes = ''fraud''\<rparr>]
     = [\<lparr>entity_id = ''u7'', risk_level = ''HIGH'', entry_notes = ''fraud''\<rparr>]
   \<and> map (map_sum id watchlist_risk)
       (join_one \<lparr>w_user_id = ''u7'', w_velocity_sum_1h = Fin 10,
                  w_velocity_count_1h = 1,
                  w_latest_meta = ''2024-01-01T10:30:00|10.000000|Delhi|Amazon|ok''\<rparr>
          [\<lparr>entity_id = ''u7'', risk_level = ''HIGH'', entry_notes = ''fraud''\<rparr>])
     = [Inr (Some ''HIGH'')]"
proof -
  let ?s = "\<lparr>w_user_id = ''u101'', w_velocity_sum_1h = Fin 3500,
            w_velocity_count_1h = 2,
            w_latest_meta = ''2024-01-01T10:30:00|3000.000000|Delhi|Amazon|ok''\<rparr>"
  let ?s' = "\<lparr>w_user_id = ''u7'', w_velocity_sum_1h = Fin 10,
              w_velocity_count_1h = 1,
              w_latest_meta = ''2024-01-01T10:30:00|10.000000|Delhi|Amazon|ok''\<rparr>"
  let ?e = "\<lparr>entity_id = ''u7'', risk_level = ''HIGH'', entry_notes = ''fraud''\<rparr>"
  have m: "matches ?s [?e] = []" "matches ?s' [?e] = [?e]"
    by (simp_all add: matches_def)
  obtain r where r: "joined_row ?s None = Inr r" "watchlist_risk r = None"
    using join_totality [of ?s "[?e]" ?e None "[]"] by auto
  obtain r' where r': "joined_row ?s' (Some ?e) = Inr r'" "watchlist_risk r' = Some ''HIGH''"
    using join_totality [of ?s' "[?e]" ?e "Some ?e" "[]"] by auto
  show ?thesis
    using m r r'
      join_totality [of ?s "[?e]" ?e None "[]"]
      join_totality [of ?s' "[?e]" ?e "Some ?e" "[]"]
    by simp
qed

section \<open>The window aggregate\<close>

lemma scenario_account:
  "filter (\<lambda>r. t_user_id r = ''u101'') scenario_rows =
     [t_row_of 36000 ''2024-01-01T10:00:00'' ''u101'' (Fin 500) ''Amazon'' ''Delhi'' ''ok'',
      t_row_of 37800 ''2024-01-01T10:30:00'' ''u101'' (Fin 3000) ''Amazon'' ''Delhi'' ''ok'',
      t_row_of 39600 ''2024-01-01T11:00:00'' ''u101'' (Fin 40) ''Amazon'' ''Delhi'' ''ok'']"
  by (simp add: scenario_rows_def t_row_of_def)

lemma scenario_window:
  "in_window (36000, 39600) ''u101'' scenario_rows =
     [t_row_of 36000 ''2024-01-01T10:00:00'' ''u101'' (Fin 500) ''Amazon'' ''Delhi'' ''ok'',
      t_row_of 37800 ''2024-01-01T10:30:00'' ''u101'' (Fin 3000) ''Amazon'' ''Delhi'' ''ok'']"
  by (simp add: in_window_def scenario_rows_def t_row_of_def)

lemma scenario_keys:
  "t_meta (t_row_of 36000 ''2024-01-01T10:00:00'' ''u101'' (Fin 500) ''Amazon'' ''Delhi'' ''ok'') =
     ''2024-01-01T10:00:00|500.000000|Delhi|Amazon|ok''"
  "t_meta (t_row_of 37800 ''2024-01-01T10:30:00'' ''u101'' (Fin 3000) ''Amazon'' ''Delhi'' ''ok'') =
     ''2024-01-01T10:30:00|3000.000000|Delhi|Amazon|ok''"
  "t_meta (t_row_of 39600 ''2024-01-01T11:00:00'' ''u101'' (Fin 40) ''Amazon'' ''Delhi'' ''ok'') =
     ''2024-01-01T11:00:00|40.000000|Delhi|Amazon|ok''"
  by (simp_all add: t_row_of_def key_shape fmt_eval)

lemma scenario_aggregate:
  "stats_of ''u101'' (window_stats 0 scenario_rows) =
     Some \<lparr>w_user_id = ''u101'', w_velocity_sum_1h = Fin 212400, w_velocity_count_1h = 180,
           w_latest_meta = ''2024-01-01T11:00:00|40.000000|Delhi|Amazon|ok''\<rparr>"
proof -
  let ?rs = "[t_row_of 36000 ''2024-01-01T10:00:00'' ''u101'' (Fin 500) ''Amazon'' ''Delhi'' ''ok'',
      t_row_of 37800 ''2024-01-01T10:30:00'' ''u101'' (Fin 3000) ''Amazon'' ''Delhi'' ''ok'',
      t_row_of 39600 ''2024-01-01T11:00:00'' ''u101'' (Fin 40) ''Amazon'' ''Delhi'' ''ok'']"
  have ne: "?rs \<noteq> []"
    by simp
  have am: "map t_amount_f ?rs = map Fin [500, 3000, 40]"
    by (simp add: t_row_of_def)
  have mx: "Max (t_meta ` set ?rs) = ''2024-01-01T11:00:00|40.000000|Delhi|Amazon|ok''"
    by (simp add: scenario_keys max_def)
  show ?thesis
    unfolding window_stats_of_account [OF scenario_account ne am] mx
    by simp
qed

text \<open>
  C3. The claim: the sum and the count emitted for a window \<open>[t, t + 60 min)\<close> are the sum
  and the count of exactly the transactions of the account whose time lies in the
  interval. In the stream \<open>scenario_rows\<close> the account \<^verbatim>\<open>u101\<close> has the transactions 500
  at 10:00, 3000 at 10:30 and 40 at 11:00, so the window from 10:00 to 11:00 has the sum
  3500 and the count 2. The table that \<^verbatim>\<open>window_stats\<close> computes holds one aggregate for
  the account and no other, with the sum 212400 and the count 180: the grouping of
  line 172 has no window in its key, so each of the three transactions, the one of 11:00
  included, is counted once for each of the 60 windows that contain it.
\<close>

theorem window_stats_counts_every_window:
  "map (\<lambda>s. (w_velocity_sum_1h s, w_velocity_count_1h s))
     (filter (\<lambda>s. w_user_id s = ''u101'') (window_stats 0 scenario_rows)) = [(Fin 212400, 180)]
   \<and> interval_sum_count (36000, 39600) ''u101'' scenario_rows = Some (Fin 3500, 2)"
proof
  have "filter (\<lambda>s. w_user_id s = ''u101'') (window_stats 0 scenario_rows) =
      (case stats_of ''u101'' (window_stats 0 scenario_rows) of None \<Rightarrow> [] | Some s \<Rightarrow> [s])"
    unfolding window_stats_def by (rule aggregates_of_account)
  then show "map (\<lambda>s. (w_velocity_sum_1h s, w_velocity_count_1h s))
     (filter (\<lambda>s. w_user_id s = ''u101'') (window_stats 0 scenario_rows)) = [(Fin 212400, 180)]"
    by (simp add: scenario_aggregate)
next
  show "interval_sum_count (36000, 39600) ''u101'' scenario_rows = Some (Fin 3500, 2)"
    by (simp add: interval_sum_count_def scenario_window reducers_sum_def t_row_of_def)
qed

section \<open>The latest snapshot\<close>

text \<open>
  The latest key of an account's aggregate is the greatest key, in the lexicographic
  order of strings, among all the transactions of the account, and the joined record
  carries the fields unpacked from it.
\<close>

lemma latest_meta_of_account:
  assumes "filter (\<lambda>r. t_user_id r = u) rows \<noteq> []"
  shows "map_option w_latest_meta (stats_of u (window_stats origin rows)) =
     Some (Max (t_meta ` set (filter (\<lambda>r. t_user_id r = u) rows)))"
proof -
  let ?g = "concat (map (replicate 60) (filter (\<lambda>r. t_user_id r = u) rows))"
  have ne: "?g \<noteq> []"
    using assms by (cases "filter (\<lambda>r. t_user_id r = u) rows") simp_all
  have "set ?g = set (filter (\<lambda>r. t_user_id r = u) rows)"
    by auto
  then show ?thesis
    unfolding window_stats_def stats_of_sliding_stats group_rows_1h
    by (simp add: reduce_group_nonempty [OF ne])
qed

lemma joined_row_fields:
  assumes "joined_row s e = Inr r"
  shows "(Inr (latest_time r), Inr (amount r), Inr (location r), Inr (merchant r),
          Inr (status r)) = unpacked_fields (Some (w_latest_meta s))"
  using assms
  by (auto simp add: joined_row_def bindE_def unpacked_fields_def split: sum.splits)

text \<open>
  Two transactions with the same timestamp and the amounts 999 and 1000: the key with
  \<^verbatim>\<open>999.000000\<close> is the greater string, and the reported latest amount is 999.
\<close>

lemma tie_keys_order:
  "make_meta_str (Some ''2024-01-01T10:00:00'') (VFloat (Fin 1000)) (Some ''Delhi'')
     (Some ''Amazon'') (Some ''ok'')
   < make_meta_str (Some ''2024-01-01T10:00:00'') (VFloat (Fin 999)) (Some ''Delhi'')
       (Some ''Amazon'') (Some ''ok'')"
  by (simp add: key_shape fmt_eval)

lemma tie_latest_amount:
  "map_option (\<lambda>s. meta_get_amount (Some (w_latest_meta s)))
     (stats_of ''u101'' (window_stats 0 tie_rows)) = Some (Inr (Fin 999))"
proof -
  let ?lo = "make_meta_str (Some ''2024-01-01T10:00:00'') (VFloat (Fin 1000)) (Some ''Delhi'')
     (Some ''Amazon'') (Some ''ok'')"
  let ?hi = "make_meta_str (Some ''2024-01-01T10:00:00'') (VFloat (Fin 999)) (Some ''Delhi'')
     (Some ''Amazon'') (Some ''ok'')"
  have rows: "filter (\<lambda>r. t_user_id r = ''u101'') tie_rows = tie_rows"
    by (simp add: tie_rows_def t_row_of_def)
  have ne: "filter (\<lambda>r. t_user_id r = ''u101'') tie_rows \<noteq> []"
    unfolding rows by (simp add: tie_rows_def)
  have mx: "max ?hi ?lo = ?hi"
    by (rule max_absorb1) (rule less_imp_le [OF tie_keys_order])
  have "(999 :: real) * 10 ^ 6 = real_of_int 999000000"
    by simp
  then have r6: "round6 (Fin 999) = Fin 999"
    by (rule round6_exact)
  have am: "meta_get_amount (Some ?hi) = Inr (Fin 999)"
    by (simp add: key_unpacked(2) r6)
  have "Max (t_meta ` set tie_rows) = ?hi"
    by (simp add: tie_rows_def t_row_of_def mx)
  with latest_meta_of_account [OF ne, of 0] rows
  have "map_option w_latest_meta (stats_of ''u101'' (window_stats 0 tie_rows)) = Some ?hi"
    by simp
  then show ?thesis
    using am by (auto simp add: map_option_case split: option.splits)
qed

text \<open>
  C4. The claim: the reported latest snapshot is the transaction with the greatest key
  among the transactions that contribute to a window. In the stream \<open>scenario_rows\<close> the
  window from 10:00 to 11:00 of the account \<^verbatim>\<open>u101\<close> has the transactions of 10:00 and
  10:30, and the greatest of their keys is the one of 10:30 with the amount 3000. The
  only aggregate of the account reports the key of the transaction of 11:00 with the
  amount 40, which lies outside that window: the grouping of line 172 has no window in
  its key, and the maximum runs over all the transactions of the account.
\<close>

theorem latest_snapshot_ignores_window:
  "map w_latest_meta (filter (\<lambda>s. w_user_id s = ''u101'') (window_stats 0 scenario_rows)) =
     [''2024-01-01T11:00:00|40.000000|Delhi|Amazon|ok'']
   \<and> map t_meta (in_window (36000, 39600) ''u101'' scenario_rows) =
       [''2024-01-01T10:00:00|500.000000|Delhi|Amazon|ok'',
        ''2024-01-01T10:30:00|3000.000000|Delhi|Amazon|ok'']
   \<and> Max (t_meta ` set (in_window (36000, 39600) ''u101'' scenario_rows)) =
       ''2024-01-01T10:30:00|3000.000000|Delhi|Amazon|ok''"
proof (intro conjI)
  have "filter (\<lambda>s. w_user_id s = ''u101'') (window_stats 0 scenario_rows) =
      (case stats_of ''u101'' (window_stats 0 scenario_rows) of None \<Rightarrow> [] | Some s \<Rightarrow> [s])"
    unfolding window_stats_def by (rule aggregates_of_account)
  then show "map w_latest_meta
      (filter (\<lambda>s. w_user_id s = ''u101'') (window_stats 0 scenario_rows)) =
     [''2024-01-01T11:00:00|40.000000|Delhi|Amazon|ok'']"
    by (simp add: scenario_aggregate)
next
  show "map t_meta (in_window (36000, 39600) ''u101'' scenario_rows) =
       [''2024-01-01T10:00:00|500.000000|Delhi|Amazon|ok'',
        ''2024-01-01T10:30:00|3000.000000|Delhi|Amazon|ok'']"
    by (simp add: scenario_window scenario_keys)
next
  show "Max (t_meta ` set (in_window (36000, 39600) ''u101'' scenario_rows)) =
       ''2024-01-01T10:30:00|3000.000000|Delhi|Amazon|ok''"
    by (simp add: scenario_window scenario_keys max_def)
qed

end
